theory Spec2Isabelle
  imports Complex_Main
begin

section \<open>Errors and integer tensors\<close>

text \<open>
  The Python exceptions that the modelled functions of \<^verbatim>\<open>RobustFill.py\<close> can raise.
  A dictionary lookup of a missing key raises \<^verbatim>\<open>KeyError\<close>, which carries the key.
\<close>

datatype 'a error = KeyError 'a | IndexError | ValueError | AttributeError | RuntimeError | AssertionError

text \<open>
  A two-dimensional \<^verbatim>\<open>LongTensor\<close> is the list of its rows (dimension 0 first), so that
  \<^verbatim>\<open>t[k, b]\<close> is \<open>t ! k ! b\<close>. Token ids are never negative, so they are naturals.
\<close>

type_synonym tensor2 = "nat list list"

definition size0 :: "'b list list \<Rightarrow> nat" where
  "size0 t = length t"

definition size1 :: "'b list list \<Rightarrow> nat" where
  "size1 t = (case t of [] \<Rightarrow> 0 | r # _ \<Rightarrow> length r)"

text \<open>A tensor whose second dimension is \<open>B\<close>: every row has \<open>B\<close> entries.\<close>

definition rect :: "nat \<Rightarrow> 'b list list \<Rightarrow> bool" where
  "rect B t \<longleftrightarrow> (\<forall>row \<in> set t. length row = B)"

text \<open>\<^verbatim>\<open>t[:, i]\<close>: column \<open>i\<close> of a tensor.\<close>

definition column :: "'b list list \<Rightarrow> nat \<Rightarrow> 'b list" where
  "column t i = map (\<lambda>row. row ! i) t"

text \<open>\<^verbatim>\<open>self._ones(r, c).long() * v\<close>\<close>

definition ones_times :: "nat \<Rightarrow> nat \<Rightarrow> nat \<Rightarrow> tensor2" where
  "ones_times r c v = replicate r (replicate c v)"

text \<open>\<^verbatim>\<open>t[:len(ids), i] = torch.LongTensor(ids)\<close>\<close>

definition assign_column_prefix :: "tensor2 \<Rightarrow> nat \<Rightarrow> nat list \<Rightarrow> tensor2" where
  "assign_column_prefix t i ids =
     map (\<lambda>(k, row). if k < length ids then row[i := ids ! k] else row) (enumerate 0 t)"

section \<open>The vocabulary codec\<close>

text \<open>
  \<^verbatim>\<open>{vocab[j]: j for j in range(len(vocab))}\<close> of \<^verbatim>\<open>_refreshVocabularyIndex\<close>: a later
  position of a repeated token overwrites an earlier one.
\<close>

fun index_from :: "'a list \<Rightarrow> nat \<Rightarrow> ('a \<rightharpoonup> nat) \<Rightarrow> ('a \<rightharpoonup> nat)" where
  "index_from [] j m = m"
| "index_from (x # xs) j m = index_from xs (Suc j) (m(x \<mapsto> j))"

definition vocabulary_index :: "'a list \<Rightarrow> ('a \<rightharpoonup> nat)" where
  "vocabulary_index vocab = index_from vocab 0 Map.empty"

text \<open>\<^verbatim>\<open>[index[x] for x in s]\<close>: the first missing token raises \<^verbatim>\<open>KeyError\<close>.\<close>

fun lookup_ids :: "('a \<rightharpoonup> nat) \<Rightarrow> 'a list \<Rightarrow> 'a error + nat list" where
  "lookup_ids idx [] = Inr []"
| "lookup_ids idx (x # xs) =
     (case idx x of
        None \<Rightarrow> Inl (KeyError x)
      | Some j \<Rightarrow> (case lookup_ids idx xs of Inl e \<Rightarrow> Inl e | Inr js \<Rightarrow> Inr (j # js)))"

text \<open>
  The loop \<^verbatim>\<open>for i in range(len(targets))\<close> of \<^verbatim>\<open>_targetToTensor\<close> (and the loop over
  \<^verbatim>\<open>k\<close> of \<^verbatim>\<open>_inputsToTensors\<close>): sequence \<open>i\<close> overwrites the head of column \<open>i\<close>;
  an empty sequence leaves its column as it is.
\<close>

fun fill_columns :: "('a \<rightharpoonup> nat) \<Rightarrow> 'a list list \<Rightarrow> nat \<Rightarrow> tensor2 \<Rightarrow> 'a error + tensor2" where
  "fill_columns idx [] i t = Inr t"
| "fill_columns idx (s # ss) i t =
     (if length s > 0 then
        (case lookup_ids idx s of
           Inl e \<Rightarrow> Inl e
         | Inr ids \<Rightarrow> fill_columns idx ss (Suc i) (assign_column_prefix t i ids))
      else fill_columns idx ss (Suc i) t)"

text \<open>\<^verbatim>\<open>max(len(s) for s in seqs)\<close>, for a non-empty \<open>seqs\<close>.\<close>

definition max_len :: "'a list list \<Rightarrow> nat" where
  "max_len seqs = fold max (map length seqs) 0"

text \<open>
  The body shared by \<^verbatim>\<open>_targetToTensor\<close> and the innermost part of \<^verbatim>\<open>_inputsToTensors\<close>:
  \<^verbatim>\<open>max\<close> of an empty batch raises \<^verbatim>\<open>ValueError\<close>; otherwise a tensor of
  \<open>maxlen + 1\<close> rows filled with the end-of-sequence id \<open>v\<close> is overwritten column by column.
\<close>

definition encode_columns :: "('a \<rightharpoonup> nat) \<Rightarrow> nat \<Rightarrow> 'a list list \<Rightarrow> 'a error + tensor2" where
  "encode_columns idx v seqs =
     (if seqs = [] then Inl ValueError
      else fill_columns idx seqs 0 (ones_times (max_len seqs + 1) (length seqs) v))"

section \<open>The model object\<close>

text \<open>
  The attributes of a \<^verbatim>\<open>RobustFill\<close> object that the vocabulary codec and the vocabulary
  transfer read or write. \<open>V_weight\<close> and \<open>V_bias\<close> are \<^verbatim>\<open>self.V.weight.data\<close> and
  \<^verbatim>\<open>self.V.bias.data\<close> (one row and one entry per target id, the end-of-sequence id last),
  \<open>decoder_cell_weight_ih\<close> is \<^verbatim>\<open>self.decoder_cell.weight_ih.data\<close> (one column per
  target id). Parameter values are modelled as reals; the transfer only copies them and
  writes the constants \<open>0\<close> and \<open>-10\<close>. \<open>opt\<close> and \<open>optstate\<close> say whether the attribute
  is present.
\<close>

record 'a robustfill =
  n_encoders :: nat
  input_vocabularies :: "'a list list"
  target_vocabulary :: "'a list"
  input_vocabularies_index :: "('a \<rightharpoonup> nat) list"
  target_vocabulary_index :: "'a \<rightharpoonup> nat"
  v_inputs :: "nat list"
  v_target :: nat
  V_weight :: "real list list"
  V_bias :: "real list"
  V_out_features :: nat
  decoder_cell_weight_ih :: "real list list"
  decoder_cell_input_size :: nat
  opt :: bool
  optstate :: bool

definition refreshVocabularyIndex :: "'a robustfill \<Rightarrow> 'a robustfill" where
  "refreshVocabularyIndex m =
     m\<lparr>input_vocabularies_index := map vocabulary_index (input_vocabularies m),
       target_vocabulary_index := vocabulary_index (target_vocabulary m)\<rparr>"

text \<open>
  \<^verbatim>\<open>__init__\<close>, as far as the attributes above go. The freshly drawn parameters of
  \<^verbatim>\<open>self.V\<close> and \<^verbatim>\<open>self.decoder_cell\<close> are arguments: \<open>Vw\<close> has \<open>v_target + 1\<close> rows,
  \<open>Vb\<close> has \<open>v_target + 1\<close> entries and every row of \<open>Wih\<close> has \<open>v_target + 1\<close> entries.
\<close>

definition init :: "'a list list \<Rightarrow> 'a list \<Rightarrow> real list list \<Rightarrow> real list \<Rightarrow> real list list
    \<Rightarrow> 'a robustfill" where
  "init input_vocabs target_vocab Vw Vb Wih =
     refreshVocabularyIndex
       \<lparr>n_encoders = length input_vocabs,
        input_vocabularies = input_vocabs,
        target_vocabulary = target_vocab,
        input_vocabularies_index = [],
        target_vocabulary_index = Map.empty,
        v_inputs = map length input_vocabs,
        v_target = length target_vocab,
        V_weight = Vw,
        V_bias = Vb,
        V_out_features = length target_vocab + 1,
        decoder_cell_weight_ih = Wih,
        decoder_cell_input_size = length target_vocab + 1,
        opt = False,
        optstate = False\<rparr>"

text \<open>What \<^verbatim>\<open>__init__\<close> and \<^verbatim>\<open>_refreshVocabularyIndex\<close> establish about the vocabularies.\<close>

definition codec_ok :: "'a robustfill \<Rightarrow> bool" where
  "codec_ok m \<longleftrightarrow>
     n_encoders m = length (input_vocabularies m) \<and>
     v_inputs m = map length (input_vocabularies m) \<and>
     input_vocabularies_index m = map vocabulary_index (input_vocabularies m) \<and>
     v_target m = length (target_vocabulary m) \<and>
     target_vocabulary_index m = vocabulary_index (target_vocabulary m)"

subsection \<open>Encoding and decoding target sequences\<close>

definition targetToTensor :: "'a robustfill \<Rightarrow> 'a list list \<Rightarrow> 'a error + tensor2" where
  "targetToTensor m targets = encode_columns (target_vocabulary_index m) (v_target m) targets"

text \<open>\<^verbatim>\<open>[vocab[x] for x in ids]\<close>: an id past the end of the vocabulary raises.\<close>

fun lookup_tokens :: "'a list \<Rightarrow> nat list \<Rightarrow> 'a error + 'a list" where
  "lookup_tokens vocab [] = Inr []"
| "lookup_tokens vocab (x # xs) =
     (if x < length vocab then
        (case lookup_tokens vocab xs of Inl e \<Rightarrow> Inl e | Inr ys \<Rightarrow> Inr (vocab ! x # ys))
      else Inl IndexError)"

text \<open>\<^verbatim>\<open>l.index(v)\<close> for a \<open>v\<close> that occurs in \<open>l\<close>: its first position.\<close>

fun index_of :: "'b \<Rightarrow> 'b list \<Rightarrow> nat" where
  "index_of v [] = 0"
| "index_of v (x # xs) = (if x = v then 0 else Suc (index_of v xs))"

text \<open>The body of the loop of \<^verbatim>\<open>_tensorToOutput\<close>, for the column \<open>l\<close>.\<close>

definition decode_column :: "'a robustfill \<Rightarrow> nat list \<Rightarrow> 'a error + 'a list" where
  "decode_column m l =
     (case l of
        [] \<Rightarrow> Inl IndexError
      | l0 # _ \<Rightarrow>
          if l0 = v_target m then Inr []
          else if v_target m \<in> set l then
            lookup_tokens (target_vocabulary m) (take (index_of (v_target m) l) l)
          else lookup_tokens (target_vocabulary m) l)"

text \<open>A loop that appends one result per element and stops at the first exception.\<close>

fun collect :: "('b \<Rightarrow> 'e + 'c) \<Rightarrow> 'b list \<Rightarrow> 'e + 'c list" where
  "collect f [] = Inr []"
| "collect f (x # xs) =
     (case f x of
        Inl e \<Rightarrow> Inl e
      | Inr y \<Rightarrow> (case collect f xs of Inl e \<Rightarrow> Inl e | Inr ys \<Rightarrow> Inr (y # ys)))"

definition tensorToOutput :: "'a robustfill \<Rightarrow> tensor2 \<Rightarrow> 'a error + 'a list list" where
  "tensorToOutput m tensor = collect (\<lambda>i. decode_column m (column tensor i)) [0..<size1 tensor]"

subsection \<open>Encoding input sequences\<close>

text \<open>An exception ends the computation; otherwise the value is passed on.\<close>

fun ebind :: "'e + 'b \<Rightarrow> ('b \<Rightarrow> 'e + 'c) \<Rightarrow> 'e + 'c" where
  "ebind (Inl e) f = Inl e"
| "ebind (Inr x) f = f x"

text \<open>
  \<^verbatim>\<open>[x[j][i] for x in inputsss]\<close>: the sequence for encoder \<open>i\<close> of example \<open>j\<close>, of every
  instance of the batch. An instance is a list of examples, an example the list (in
  Python a tuple) of its sequences, one per encoder.
\<close>

definition gather_sequences :: "'a list list list list \<Rightarrow> nat \<Rightarrow> nat \<Rightarrow> 'a error + 'a list list" where
  "gather_sequences inputsss j i =
     collect (\<lambda>x. if j < length x \<and> i < length (x ! j) then Inr (x ! j ! i) else Inl IndexError)
       inputsss"

text \<open>
  \<^verbatim>\<open>_inputsToTensors\<close>. (\<^verbatim>\<open>self.v_inputs[i]\<close> and \<^verbatim>\<open>self.input_vocabularies_index[i]\<close>
  are in range for every object that \<^verbatim>\<open>__init__\<close> builds.)
\<close>

definition inputsToTensors :: "'a robustfill \<Rightarrow> 'a list list list list \<Rightarrow> 'a error + tensor2 list list" where
  "inputsToTensors m inputsss =
     collect (\<lambda>i.
       (case inputsss of
          [] \<Rightarrow> Inl IndexError
        | x0 # _ \<Rightarrow>
            collect (\<lambda>j.
              ebind (gather_sequences inputsss j i) (\<lambda>inputs.
                if i < length (v_inputs m) \<and> i < length (input_vocabularies_index m)
                then encode_columns (input_vocabularies_index m ! i) (v_inputs m ! i) inputs
                else Inl IndexError))
              [0..<length x0]))
       [0..<n_encoders m]"

text \<open>
  A batch in which every instance has as many examples as the first one and every example
  has one sequence per encoder.
\<close>

definition well_shaped :: "'a robustfill \<Rightarrow> 'a list list list list \<Rightarrow> bool" where
  "well_shaped m batch \<longleftrightarrow>
     batch \<noteq> [] \<and>
     (\<forall>inst \<in> set batch. length inst = length (hd batch) \<and>
        (\<forall>ex \<in> set inst. length ex = n_encoders m))"

text \<open>The token \<open>x\<close> occurs in an input sequence of the batch and is not in the vocabulary
  of that sequence's encoder.\<close>

definition unknown_input_token :: "'a robustfill \<Rightarrow> 'a list list list list \<Rightarrow> 'a \<Rightarrow> bool" where
  "unknown_input_token m batch x \<longleftrightarrow>
     (\<exists>inst \<in> set batch. \<exists>ex \<in> set inst. \<exists>i < n_encoders m.
        x \<in> set (ex ! i) \<and> x \<notin> set (input_vocabularies m ! i))"

text \<open>The token \<open>x\<close> occurs in a target sequence and is not in the target vocabulary.\<close>

definition unknown_target_token :: "'a robustfill \<Rightarrow> 'a list list \<Rightarrow> 'a \<Rightarrow> bool" where
  "unknown_target_token m targets x \<longleftrightarrow>
     (\<exists>s \<in> set targets. x \<in> set s \<and> x \<notin> set (target_vocabulary m))"

section \<open>Float tensors and the layers of the network\<close>

text \<open>
  A float tensor of the encoders and of the feature layers is a list of rows of reals:
  there the model computes in exact arithmetic, with the \<open>-inf\<close> that the attention
  mask holds at inactive positions. The log-probabilities and the scores of the decoder
  are float32 values with their infinities and NaN (below).
\<close>

type_synonym ftensor2 = "real list list"

type_synonym ftensor3 = "real list list list"

datatype xreal = Fin real | NegInf

text \<open>\<^verbatim>\<open>active.float().log()\<close>, entry by entry: \<open>log 1 = 0\<close> and \<open>log 0 = -inf\<close>.\<close>

definition log_byte :: "nat \<Rightarrow> xreal" where
  "log_byte n = (if n = 0 then NegInf else Fin (ln (real n)))"

fun add_x :: "real \<Rightarrow> xreal \<Rightarrow> xreal" where
  "add_x s (Fin x) = Fin (s + x)"
| "add_x s NegInf = NegInf"

fun exp_x :: "xreal \<Rightarrow> real" where
  "exp_x (Fin x) = exp x"
| "exp_x NegInf = 0"

text \<open>
  \<^verbatim>\<open>F.softmax(s, dim=0)\<close>: every column is normalised over the first dimension. (Where a
  whole column is \<open>-inf\<close> torch returns NaN; the quotient \<open>0 / 0\<close> is \<open>0\<close> here.)
\<close>

definition softmax_dim0 :: "xreal list list \<Rightarrow> ftensor2" where
  "softmax_dim0 s =
     map (\<lambda>row. map (\<lambda>(b, x). exp_x x / sum_list (map exp_x (column s b))) (enumerate 0 row)) s"

text \<open>\<^verbatim>\<open>F.log_softmax(x, dim=1)\<close>\<close>

definition log_softmax :: "ftensor2 \<Rightarrow> ftensor2" where
  "log_softmax x = map (\<lambda>row. map (\<lambda>y. y - ln (sum_list (map exp row))) row) x"

text \<open>\<^verbatim>\<open>nn.Linear\<close> with weight \<open>Wt\<close> and bias \<open>bs\<close>, applied to every row of \<open>x\<close>.\<close>

definition nn_Linear :: "ftensor2 \<Rightarrow> real list \<Rightarrow> ftensor2 \<Rightarrow> ftensor2" where
  "nn_Linear Wt bs x =
     map (\<lambda>row. map2 (+) (map (\<lambda>w. sum_list (map2 (*) row w)) Wt) bs) x"

text \<open>
  \<^verbatim>\<open>torch.cat(ts, dim=1)\<close> for matrices with the same number of rows (torch raises
  otherwise; every use below joins pieces that have the same number of rows).
\<close>

definition cat_dim1 :: "'b list list list \<Rightarrow> 'b list list" where
  "cat_dim1 ts =
     (case ts of [] \<Rightarrow> [] | t # _ \<Rightarrow> map (\<lambda>r. concat (map (\<lambda>p. p ! r) ts)) [0..<length t])"

text \<open>\<^verbatim>\<open>zeros(..., n).scatter_(-1, ids[..., None], 1)\<close>: one-hot rows; an id past \<open>n - 1\<close> raises.\<close>

definition one_hot :: "nat \<Rightarrow> nat \<Rightarrow> real list" where
  "one_hot n i = (replicate n 0)[i := 1]"

definition scatter_rows :: "nat \<Rightarrow> nat list \<Rightarrow> 'a error + ftensor2" where
  "scatter_rows n ids = (if \<forall>x \<in> set ids. x < n then Inr (map (one_hot n) ids) else Inl RuntimeError)"

definition scatter_onehot :: "nat \<Rightarrow> tensor2 \<Rightarrow> 'a error + ftensor3" where
  "scatter_onehot n t = collect (scatter_rows n) t"

text \<open>
  The values of a float32 tensor, where a claim depends on the non-finite ones: the real
  that a finite value denotes, \<open>+inf\<close>, \<open>-inf\<close> and NaN. An operation on finite values
  returns its exact result when that lies within the float32 range and an infinity
  otherwise; rounding within the range and the sign of zero are not modelled. Infinities
  and NaN follow IEEE 754: \<open>inf * 0\<close> and \<open>inf - inf\<close> are NaN, and NaN propagates.
\<close>

datatype float32 = F32 real | PInf | MInf | NaN

definition float32_max :: real where
  "float32_max = 340282346638528859811704183484516925440"

definition round32 :: "real \<Rightarrow> float32" where
  "round32 x = (if float32_max < x then PInf else if x < - float32_max then MInf else F32 x)"

fun fl_add :: "float32 \<Rightarrow> float32 \<Rightarrow> float32" where
  "fl_add NaN y = NaN"
| "fl_add x NaN = NaN"
| "fl_add (F32 x) (F32 y) = round32 (x + y)"
| "fl_add (F32 x) PInf = PInf"
| "fl_add (F32 x) MInf = MInf"
| "fl_add PInf (F32 y) = PInf"
| "fl_add MInf (F32 y) = MInf"
| "fl_add PInf PInf = PInf"
| "fl_add MInf MInf = MInf"
| "fl_add PInf MInf = NaN"
| "fl_add MInf PInf = NaN"

fun fl_mul :: "float32 \<Rightarrow> float32 \<Rightarrow> float32" where
  "fl_mul NaN y = NaN"
| "fl_mul x NaN = NaN"
| "fl_mul (F32 x) (F32 y) = round32 (x * y)"
| "fl_mul (F32 x) PInf = (if x = 0 then NaN else if 0 < x then PInf else MInf)"
| "fl_mul (F32 x) MInf = (if x = 0 then NaN else if 0 < x then MInf else PInf)"
| "fl_mul PInf (F32 y) = (if y = 0 then NaN else if 0 < y then PInf else MInf)"
| "fl_mul MInf (F32 y) = (if y = 0 then NaN else if 0 < y then MInf else PInf)"
| "fl_mul PInf PInf = PInf"
| "fl_mul MInf MInf = PInf"
| "fl_mul PInf MInf = MInf"
| "fl_mul MInf PInf = MInf"

fun fl_exp :: "float32 \<Rightarrow> float32" where
  "fl_exp (F32 x) = round32 (exp x)"
| "fl_exp PInf = PInf"
| "fl_exp MInf = F32 0"
| "fl_exp NaN = NaN"

text \<open>\<^verbatim>\<open>active.float()\<close>, entry by entry.\<close>

definition byte_float :: "nat \<Rightarrow> float32" where
  "byte_float n = F32 (real n)"

text \<open>A finite value; a value within the float32 range (every infinity and NaN is).\<close>

fun finite32 :: "float32 \<Rightarrow> bool" where
  "finite32 (F32 x) = True"
| "finite32 PInf = False"
| "finite32 MInf = False"
| "finite32 NaN = False"

fun in_range32 :: "float32 \<Rightarrow> bool" where
  "in_range32 (F32 x) = (\<bar>x\<bar> \<le> float32_max)"
| "in_range32 PInf = True"
| "in_range32 MInf = True"
| "in_range32 NaN = True"

text \<open>
  \<^verbatim>\<open>F.log_softmax(x, dim=1)\<close> as the float32 tensor that the decoder reads: an exact
  log-probability below the float32 range is \<open>-inf\<close>.
\<close>

definition log_softmax32 :: "ftensor2 \<Rightarrow> float32 list list" where
  "log_softmax32 x = map (map round32) (log_softmax x)"

text \<open>
  The broadcasting of torch for two vectors: equal lengths combine entry by entry, a
  vector of one entry is combined with every entry of the other, and other lengths raise.
  An in-place operation keeps the shape of its left operand.
\<close>

definition broadcast2 :: "('b \<Rightarrow> 'c \<Rightarrow> 'd) \<Rightarrow> 'b list \<Rightarrow> 'c list \<Rightarrow> 'a error + 'd list" where
  "broadcast2 f xs ys =
     (if length xs = length ys then Inr (map2 f xs ys)
      else if length xs = 1 then Inr (map (f (xs ! 0)) ys)
      else if length ys = 1 then Inr (map (\<lambda>x. f x (ys ! 0)) xs)
      else Inl RuntimeError)"

definition broadcast_inplace :: "('b \<Rightarrow> 'c \<Rightarrow> 'b) \<Rightarrow> 'b list \<Rightarrow> 'c list \<Rightarrow> 'a error + 'b list" where
  "broadcast_inplace f xs ys =
     (if length xs = length ys then Inr (map2 f xs ys)
      else if length ys = 1 then Inr (map (\<lambda>x. f x (ys ! 0)) xs)
      else Inl RuntimeError)"

text \<open>
  \<^verbatim>\<open>choose(matrix, idxs)\<close>: the entries of the flattened matrix at
  \<^verbatim>\<open>idxs + torch.arange(0, matrix.size(0)).type_as(idxs)*matrix.size(1)\<close>, a sum that broadcasts. With
  one index per row, this is entry \<open>idxs[b]\<close> of row \<open>b\<close> when \<open>idxs[b]\<close> is less than
  the number of columns.
\<close>

definition unrolled :: "nat \<Rightarrow> nat \<Rightarrow> nat list \<Rightarrow> 'a error + nat list" where
  "unrolled rows cols idxs =
     (if length idxs = rows then Inr (map (\<lambda>(b, i). i + b * cols) (enumerate 0 idxs))
      else if length idxs = 1 then Inr (map (\<lambda>b. idxs ! 0 + b * cols) [0..<rows])
      else if rows = 1 then Inr idxs
      else Inl RuntimeError)"

definition choose_t :: "'b list list \<Rightarrow> nat list \<Rightarrow> 'a error + 'b list" where
  "choose_t matrix idxs =
     ebind (unrolled (size0 matrix) (size1 matrix) idxs) (\<lambda>unrolled_idxs.
       if \<forall>u \<in> set unrolled_idxs. u < length (concat matrix)
       then Inr (map (\<lambda>u. concat matrix ! u) unrolled_idxs)
       else Inl IndexError)"

text \<open>
  The state of a recurrent cell: the hidden vectors of the batch, and for an LSTM also the
  memory vectors.
\<close>

datatype cell_type = GRU | LSTM

datatype cell_state = GRU_state ftensor2 | LSTM_state ftensor2 ftensor2

text \<open>
  The learned layers whose arithmetic is not modelled are functions: the recurrent cells
  (the decoder cell takes its \<^verbatim>\<open>weight_ih\<close>), the linear layer \<^verbatim>\<open>self.W\<close>, the bilinear
  forms \<^verbatim>\<open>self.As[i]\<close> (one score per pair of rows) and \<^verbatim>\<open>torch.multinomial\<close>, which reads
  and advances the state of the random number generator.
\<close>

record 'rng layers =
  cell_kind :: cell_type
  encoder_init_h :: ftensor2
  encoder_init_cs :: "ftensor2 list"
  decoder_init_c :: ftensor2
  encoder_cells :: "nat \<Rightarrow> ftensor2 \<Rightarrow> cell_state \<Rightarrow> cell_state"
  decoder_cell :: "ftensor2 \<Rightarrow> ftensor2 \<Rightarrow> cell_state \<Rightarrow> cell_state"
  W_linear :: "ftensor2 \<Rightarrow> ftensor2"
  As_bilinear :: "nat \<Rightarrow> real list \<Rightarrow> real list \<Rightarrow> real"
  multinomial :: "'rng \<Rightarrow> float32 list list \<Rightarrow> nat list \<times> 'rng"

text \<open>\<^verbatim>\<open>t.repeat(n, 1)\<close>\<close>

definition repeat_rows :: "ftensor2 \<Rightarrow> nat \<Rightarrow> ftensor2" where
  "repeat_rows t n = concat (replicate n t)"

definition encoder_get_init :: "'rng layers \<Rightarrow> nat \<Rightarrow> ftensor2 option \<Rightarrow> nat \<Rightarrow> cell_state" where
  "encoder_get_init L encoder_idx h batch_size =
     (let h' = (case h of None \<Rightarrow> repeat_rows (encoder_init_h L) batch_size | Some x \<Rightarrow> x)
      in case cell_kind L of
           GRU \<Rightarrow> GRU_state h'
         | LSTM \<Rightarrow> LSTM_state h' (repeat_rows (encoder_init_cs L ! encoder_idx) batch_size))"

definition decoder_get_init :: "'rng layers \<Rightarrow> ftensor2 \<Rightarrow> cell_state" where
  "decoder_get_init L h =
     (case cell_kind L of
        GRU \<Rightarrow> GRU_state h
      | LSTM \<Rightarrow> LSTM_state h (repeat_rows (decoder_init_c L) (size0 h)))"

fun cell_get_h :: "cell_state \<Rightarrow> ftensor2" where
  "cell_get_h (GRU_state h) = h"
| "cell_get_h (LSTM_state h c) = h"

section \<open>Attention\<close>

text \<open>
  \<^verbatim>\<open>attend\<close> inside \<^verbatim>\<open>_run\<close>, for the bilinear form \<open>A\<close>, the hidden states \<open>Hp\<close> of the
  attended encoder (length \<open>\<times>\<close> batch \<open>\<times>\<close> hidden) and its attention mask. The weights are
  the softmax over the positions of the masked scores; the context is the weighted sum
  of the hidden states.
\<close>

definition attend_weights :: "(real list \<Rightarrow> real list \<Rightarrow> real) \<Rightarrow> ftensor3 \<Rightarrow> xreal list list
    \<Rightarrow> ftensor2 \<Rightarrow> ftensor2" where
  "attend_weights A Hp amask h =
     softmax_dim0 (map2 (map2 add_x) (map (\<lambda>Hk. map2 A Hk h) Hp) amask)"

definition attend :: "(real list \<Rightarrow> real list \<Rightarrow> real) \<Rightarrow> ftensor3 \<Rightarrow> xreal list list
    \<Rightarrow> ftensor2 \<Rightarrow> ftensor2" where
  "attend A Hp amask h =
     (let w = attend_weights A Hp amask h
      in map (\<lambda>b. map (\<lambda>d. sum_list (map (\<lambda>k. w ! k ! b * Hp ! k ! b ! d) [0..<length Hp]))
                    [0..<size1 h])
           [0..<length h])"

section \<open>The forward pass\<close>

datatype mode = Score | Sample

text \<open>
  What reaches \<^verbatim>\<open>_run\<close> as \<^verbatim>\<open>inputs\<close>: the tensors of \<^verbatim>\<open>_inputsToTensors\<close>
  (encoders \<open>\<times>\<close> examples), or a batch of instances as the caller wrote it.
\<close>

datatype 'a run_arg = Tensors "tensor2 list list" | Instances "'a list list list list"

text \<open>\<^verbatim>\<open>len(inputs[0])\<close>\<close>

fun arg_len0 :: "'a run_arg \<Rightarrow> 'a error + nat" where
  "arg_len0 (Tensors ts) = (case ts of [] \<Rightarrow> Inl IndexError | e # _ \<Rightarrow> Inr (length e))"
| "arg_len0 (Instances batch) = (case batch of [] \<Rightarrow> Inl IndexError | x # _ \<Rightarrow> Inr (length x))"

text \<open>
  \<^verbatim>\<open>inputs[i][j].size(d)\<close>: an example of an instance is a tuple of sequences, which has
  no attribute \<^verbatim>\<open>size\<close>.
\<close>

fun arg_size :: "'a run_arg \<Rightarrow> nat \<Rightarrow> nat \<Rightarrow> nat \<Rightarrow> 'a error + nat" where
  "arg_size (Tensors ts) i j d =
     (if i < length ts \<and> j < length (ts ! i)
      then Inr (if d = 0 then size0 (ts ! i ! j) else size1 (ts ! i ! j))
      else Inl IndexError)"
| "arg_size (Instances batch) i j d =
     (if i < length batch \<and> j < length (batch ! i) then Inl AttributeError else Inl IndexError)"

text \<open>
  The first lines of \<^verbatim>\<open>_run\<close>: \<open>n_examples\<close>, \<open>max_length_inputs\<close>,
  \<open>max_length_target\<close> and \<open>batch_size\<close>.
\<close>

definition run_shapes :: "'a robustfill \<Rightarrow> 'a run_arg \<Rightarrow> tensor2 option
    \<Rightarrow> 'a error + (nat \<times> nat list list \<times> nat \<times> nat)" where
  "run_shapes m inputs target =
     ebind (arg_len0 inputs) (\<lambda>n_examples.
     ebind (collect (\<lambda>i. collect (\<lambda>j. arg_size inputs i j 0) [0..<n_examples]) [0..<n_encoders m])
       (\<lambda>max_length_inputs.
     ebind (arg_size inputs 0 0 1) (\<lambda>batch_size.
       Inr (n_examples, max_length_inputs,
            (case target of Some t \<Rightarrow> size0 t | None \<Rightarrow> 10), batch_size))))"

subsection \<open>Encoders\<close>

record enc_state =
  e_state :: cell_state
  e_h :: ftensor2
  e_hs :: "ftensor2 list"
  e_active :: "nat list list"

text \<open>\<^verbatim>\<open>(row != v)\<close> as a byte vector.\<close>

definition ne_byte :: "nat \<Rightarrow> nat list \<Rightarrow> nat list" where
  "ne_byte v row = map (\<lambda>t. if t \<noteq> v then 1 else 0) row"

text \<open>
  One pass of the loop over \<open>k\<close> of encoder \<open>i\<close>: \<open>cell\<close> is \<^verbatim>\<open>self.encoder_cells[i]\<close>,
  \<open>att\<close> is \<^verbatim>\<open>attend(i, j, _)\<close>, \<open>v\<close> is \<^verbatim>\<open>self.v_inputs[i]\<close>, \<open>inp\<close> is
  \<^verbatim>\<open>inputs[i][j]\<close> and \<open>scat\<close> is \<^verbatim>\<open>inputs_scatter[i][j]\<close>.
\<close>

definition encoder_step :: "(ftensor2 \<Rightarrow> cell_state \<Rightarrow> cell_state) \<Rightarrow> nat \<Rightarrow> (ftensor2 \<Rightarrow> ftensor2)
    \<Rightarrow> nat \<Rightarrow> tensor2 \<Rightarrow> ftensor3 \<Rightarrow> nat \<Rightarrow> enc_state \<Rightarrow> enc_state" where
  "encoder_step cell i att v inp scat k s =
     (let state = (if i = 0 then cell (scat ! k) (e_state s)
                   else cell (cat_dim1 [scat ! k, att (e_h s)]) (e_state s));
          active = (if k + 1 < size0 inp
                    then (e_active s)[k + 1 := map2 (*) (e_active s ! k) (ne_byte v (inp ! k))]
                    else e_active s);
          h = cell_get_h state
      in \<lparr>e_state = state, e_h = h, e_hs = e_hs s @ [h], e_active = active\<rparr>)"

definition encoder_loop :: "(ftensor2 \<Rightarrow> cell_state \<Rightarrow> cell_state) \<Rightarrow> nat \<Rightarrow> (ftensor2 \<Rightarrow> ftensor2)
    \<Rightarrow> nat \<Rightarrow> tensor2 \<Rightarrow> ftensor3 \<Rightarrow> nat \<Rightarrow> cell_state \<Rightarrow> enc_state" where
  "encoder_loop cell i att v inp scat batch_size state0 =
     fold (encoder_step cell i att v inp scat) [0..<size0 inp]
       \<lparr>e_state = state0, e_h = cell_get_h state0, e_hs = [],
        e_active = replicate (size0 inp) (replicate batch_size 1)\<rparr>"

text \<open>\<^verbatim>\<open>H.gather(0, idx[None, :, None].repeat(1, 1, hidden))[0]\<close>: row \<open>b\<close> is \<open>H[idx[b]][b]\<close>.\<close>

definition gather_dim0 :: "ftensor3 \<Rightarrow> int list \<Rightarrow> 'a error + ftensor2" where
  "gather_dim0 H idx =
     (if \<forall>x \<in> set idx. 0 \<le> x \<and> nat x < length H
      then Inr (map (\<lambda>(b, x). H ! nat x ! b) (enumerate 0 idx))
      else Inl RuntimeError)"

text \<open>
  The body of the loop over the examples \<open>j\<close> of encoder \<open>i\<close>; \<open>prev\<close> holds
  \<open>H[i-1][j]\<close>, \<open>embeddings[i-1][j]\<close> and \<open>attention_mask[i-1][j]\<close> when \<open>i > 0\<close>. The
  result is what is appended to \<open>H[i]\<close>, \<open>embeddings[i]\<close> and \<open>attention_mask[i]\<close>.
\<close>

definition encode_example :: "'rng layers \<Rightarrow> 'a robustfill \<Rightarrow> nat \<Rightarrow> nat \<Rightarrow> tensor2 \<Rightarrow> ftensor3
    \<Rightarrow> (ftensor3 \<times> ftensor2 \<times> xreal list list) option
    \<Rightarrow> 'a error + (ftensor3 \<times> ftensor2 \<times> xreal list list)" where
  "encode_example L m i batch_size inp scat prev =
     (let state0 = encoder_get_init L i (map_option (\<lambda>(Hp, emb, mk). emb) prev) batch_size;
          att = (case prev of None \<Rightarrow> (\<lambda>h. h)
                 | Some (Hp, emb, mk) \<Rightarrow> attend (As_bilinear L (i - 1)) Hp mk);
          s = encoder_loop (encoder_cells L i) i att (v_inputs m ! i) inp scat batch_size state0;
          embedding_idx = map (\<lambda>b. int (sum_list (column (e_active s) b)) - 1) [0..<batch_size]
      in ebind (gather_dim0 (e_hs s) embedding_idx) (\<lambda>embedding.
           Inr (e_hs s, embedding, map (map log_byte) (e_active s))))"

fun run_encoders :: "'rng layers \<Rightarrow> 'a robustfill \<Rightarrow> nat \<Rightarrow> nat \<Rightarrow> tensor2 list list
    \<Rightarrow> ftensor3 list list \<Rightarrow> nat list
    \<Rightarrow> ftensor3 list list \<times> ftensor2 list list \<times> xreal list list list list
    \<Rightarrow> 'a error + (ftensor3 list list \<times> ftensor2 list list \<times> xreal list list list list)" where
  "run_encoders L m n_examples batch_size ts scat [] acc = Inr acc"
| "run_encoders L m n_examples batch_size ts scat (i # rest) (H, embeddings, attention_mask) =
     ebind (collect (\<lambda>j.
              encode_example L m i batch_size (ts ! i ! j) (scat ! i ! j)
                (if i > 0
                 then Some (H ! (i - 1) ! j, embeddings ! (i - 1) ! j, attention_mask ! (i - 1) ! j)
                 else None))
            [0..<n_examples])
       (\<lambda>rs. run_encoders L m n_examples batch_size ts scat rest
               (H @ [map (\<lambda>(Hij, emb, mk). Hij) rs],
                embeddings @ [map (\<lambda>(Hij, emb, mk). emb) rs],
                attention_mask @ [map (\<lambda>(Hij, emb, mk). mk) rs]))"

subsection \<open>Decoder\<close>

record 'rng dec_state =
  d_target :: tensor2
  d_states :: "cell_state list"
  d_active :: "nat list"
  d_score :: "float32 list"
  d_rng :: 'rng

text \<open>
  The feature vectors of one example: \<^verbatim>\<open>F.tanh(self.W(p_aug))\<close> for the decoder state
  \<open>st\<close> of the example, attending to the last encoder's hidden states \<open>Hp\<close>.
\<close>

definition example_features :: "'rng layers \<Rightarrow> nat \<Rightarrow> ftensor3 \<Rightarrow> xreal list list \<Rightarrow> cell_state
    \<Rightarrow> ftensor2" where
  "example_features L n_enc Hp mk st =
     (let h = cell_get_h st;
          p_aug = cat_dim1 [h, attend (As_bilinear L (n_enc - 1)) Hp mk h]
      in map (map tanh) (W_linear L p_aug))"

text \<open>The list \<open>FC\<close> of a time step, one entry per example.\<close>

definition decoder_FC :: "'rng layers \<Rightarrow> 'a robustfill \<Rightarrow> ftensor3 list \<Rightarrow> xreal list list list \<Rightarrow> nat
    \<Rightarrow> 'rng dec_state \<Rightarrow> ftensor2 list" where
  "decoder_FC L m Hl ml n_examples s =
     map (\<lambda>j. example_features L (n_encoders m) (Hl ! j) (ml ! j) (d_states s ! j)) [0..<n_examples]"

text \<open>
  \<^verbatim>\<open>torch.max(torch.cat(FC, 0), 0)[0]\<close>: the entry-wise maximum over the examples;
  \<^verbatim>\<open>torch.cat\<close> of an empty list raises.
\<close>

fun max_dim0 :: "ftensor2 list \<Rightarrow> 'a error + ftensor2" where
  "max_dim0 [] = Inl RuntimeError"
| "max_dim0 (x # xs) = Inr (foldl (map2 (map2 max)) x xs)"

definition pooled_features :: "'rng layers \<Rightarrow> 'a robustfill \<Rightarrow> ftensor3 list \<Rightarrow> xreal list list list
    \<Rightarrow> nat \<Rightarrow> 'rng dec_state \<Rightarrow> 'a error + ftensor2" where
  "pooled_features L m Hl ml n_examples s = max_dim0 (decoder_FC L m Hl ml n_examples s)"

text \<open>\<^verbatim>\<open>F.log_softmax(self.V(m), dim=1)\<close> of a time step.\<close>

definition step_logsoftmax :: "'rng layers \<Rightarrow> 'a robustfill \<Rightarrow> ftensor3 list \<Rightarrow> xreal list list list
    \<Rightarrow> nat \<Rightarrow> 'rng dec_state \<Rightarrow> 'a error + float32 list list" where
  "step_logsoftmax L m Hl ml n_examples s =
     ebind (pooled_features L m Hl ml n_examples s) (\<lambda>pooled.
       Inr (log_softmax32 (nn_Linear (V_weight m) (V_bias m) pooled)))"

text \<open>
  One pass of the decoder loop, time step \<open>k\<close>: the target row is drawn in sample mode,
  then \<^verbatim>\<open>score = score + choose(logsoftmax, target[k, :]) * active.float()\<close>, then
  \<^verbatim>\<open>active *= (target[k, :] != self.v_target)\<close>, then the decoder cells.
\<close>

definition decoder_step :: "'rng layers \<Rightarrow> 'a robustfill \<Rightarrow> mode \<Rightarrow> ftensor3 list
    \<Rightarrow> xreal list list list \<Rightarrow> nat \<Rightarrow> ftensor3 \<Rightarrow> nat \<Rightarrow> 'rng dec_state
    \<Rightarrow> 'a error + 'rng dec_state" where
  "decoder_step L m md Hl ml n_examples target_scatter k s =
     ebind (step_logsoftmax L m Hl ml n_examples s) (\<lambda>logsoftmax.
       let (target, rng) =
             (case md of
                Sample \<Rightarrow>
                  (let (ids, r) = multinomial L (d_rng s) (map (map fl_exp) logsoftmax)
                   in ((d_target s)[k := ids], r))
              | Score \<Rightarrow> (d_target s, d_rng s))
       in ebind (choose_t logsoftmax (target ! k)) (\<lambda>chosen.
          ebind (broadcast2 fl_mul chosen (map byte_float (d_active s))) (\<lambda>masked.
          ebind (broadcast2 fl_add (d_score s) masked) (\<lambda>score'.
          ebind (broadcast_inplace (*) (d_active s) (ne_byte (v_target m) (target ! k)))
            (\<lambda>active'.
          ebind (case md of
                   Score \<Rightarrow> Inr (target_scatter ! k)
                 | Sample \<Rightarrow> scatter_rows (v_target m + 1) (target ! k))
            (\<lambda>target_char_scatter.
               Inr \<lparr>d_target = target,
                    d_states = map (decoder_cell L (decoder_cell_weight_ih m) target_char_scatter)
                                 (d_states s),
                    d_active = active',
                    d_score = score',
                    d_rng = rng\<rparr>))))))"

text \<open>A \<^verbatim>\<open>for\<close> loop over \<open>ks\<close> that an exception ends.\<close>

fun for_loop :: "(nat \<Rightarrow> 's \<Rightarrow> 'e + 's) \<Rightarrow> nat list \<Rightarrow> 's \<Rightarrow> 'e + 's" where
  "for_loop body [] s = Inr s"
| "for_loop body (k # ks) s = ebind (body k s) (for_loop body ks)"

text \<open>The decoder state after the first \<open>t\<close> time steps, from the state \<open>s0\<close>.\<close>

definition decoder_state_at :: "'rng layers \<Rightarrow> 'a robustfill \<Rightarrow> mode \<Rightarrow> ftensor3 list
    \<Rightarrow> xreal list list list \<Rightarrow> nat \<Rightarrow> ftensor3 \<Rightarrow> 'rng dec_state \<Rightarrow> nat
    \<Rightarrow> 'a error + 'rng dec_state" where
  "decoder_state_at L m md Hl ml n_examples target_scatter s0 t =
     for_loop (decoder_step L m md Hl ml n_examples target_scatter) [0..<t] s0"

text \<open>The decoder state before the first time step.\<close>

definition decoder_start :: "'rng layers \<Rightarrow> tensor2 \<Rightarrow> ftensor2 list \<Rightarrow> nat \<Rightarrow> nat \<Rightarrow> 'rng
    \<Rightarrow> 'rng dec_state" where
  "decoder_start L target emb n_examples batch_size rng =
     \<lparr>d_target = target,
      d_states = map (\<lambda>j. decoder_get_init L (emb ! j)) [0..<n_examples],
      d_active = replicate batch_size 1,
      d_score = replicate batch_size (F32 0),
      d_rng = rng\<rparr>"

text \<open>
  \<^verbatim>\<open>_run\<close>. It returns the target tensor and the scores (and the state of the random
  number generator).
\<close>

definition run :: "'rng layers \<Rightarrow> 'a robustfill \<Rightarrow> 'rng \<Rightarrow> 'a run_arg \<Rightarrow> tensor2 option \<Rightarrow> mode
    \<Rightarrow> 'a error + (tensor2 \<times> float32 list \<times> 'rng)" where
  "run L m rng inputs target md =
     (if md = Score \<and> target = None then Inl AssertionError
      else
        ebind (run_shapes m inputs target)
          (\<lambda>(n_examples, max_length_inputs, max_length_target, batch_size).
        case inputs of
          Instances batch \<Rightarrow> Inl AttributeError
        | Tensors ts \<Rightarrow>
        ebind (collect (\<lambda>i. collect (\<lambda>j. scatter_onehot (v_inputs m ! i + 1) (ts ! i ! j))
                              [0..<n_examples])
                 [0..<n_encoders m]) (\<lambda>inputs_scatter.
        ebind (case target of None \<Rightarrow> Inr [] | Some t \<Rightarrow> scatter_onehot (v_target m + 1) t)
          (\<lambda>target_scatter.
        ebind (run_encoders L m n_examples batch_size ts inputs_scatter
                 [0..<length (input_vocabularies m)] ([], [], []))
          (\<lambda>(H, embeddings, attention_mask).
        let target0 = (case (md, target) of
                         (Score, Some t) \<Rightarrow> t
                       | _ \<Rightarrow> replicate max_length_target (replicate batch_size 0))
        in ebind (for_loop
                    (decoder_step L m md (H ! (n_encoders m - 1)) (attention_mask ! (n_encoders m - 1))
                       n_examples target_scatter)
                    [0..<max_length_target]
                    (decoder_start L target0 (embeddings ! (n_encoders m - 1)) n_examples
                       batch_size rng))
             (\<lambda>s. Inr (d_target s, d_score s, d_rng s)))))))"

subsection \<open>The operations on batches\<close>

text \<open>\<^verbatim>\<open>score\<close> (with or without \<^verbatim>\<open>autograd\<close> the values returned are the same).\<close>

definition score :: "'rng layers \<Rightarrow> 'a robustfill \<Rightarrow> 'rng \<Rightarrow> 'a list list list list \<Rightarrow> 'a list list
    \<Rightarrow> 'a error + (float32 list \<times> 'rng)" where
  "score L m rng batch_inputs batch_target =
     ebind (inputsToTensors m batch_inputs) (\<lambda>inputs.
     ebind (targetToTensor m batch_target) (\<lambda>target.
     ebind (run L m rng (Tensors inputs) (Some target) Score) (\<lambda>(t, sc, rng').
       Inr (sc, rng'))))"

definition sample :: "'rng layers \<Rightarrow> 'a robustfill \<Rightarrow> 'rng \<Rightarrow> 'a list list list list
    \<Rightarrow> 'a error + ('a list list \<times> 'rng)" where
  "sample L m rng batch_inputs =
     ebind (inputsToTensors m batch_inputs) (\<lambda>inputs.
     ebind (run L m rng (Tensors inputs) None Sample) (\<lambda>(target, sc, rng').
     ebind (tensorToOutput m target) (\<lambda>out. Inr (out, rng'))))"

text \<open>
  The loop \<^verbatim>\<open>for i in range(nRepeats)\<close> of \<^verbatim>\<open>sampleAndScore\<close>; it hands
  \<^verbatim>\<open>batch_inputs\<close> itself to \<^verbatim>\<open>_run\<close>.
\<close>

fun sample_repeats :: "'rng layers \<Rightarrow> 'a robustfill \<Rightarrow> 'a list list list list \<Rightarrow> nat \<Rightarrow> 'rng
    \<Rightarrow> 'a list list \<Rightarrow> float32 list \<Rightarrow> 'a error + ('a list list \<times> float32 list \<times> 'rng)" where
  "sample_repeats L m batch_inputs 0 rng target sc = Inr (target, sc, rng)"
| "sample_repeats L m batch_inputs (Suc n) rng target sc =
     ebind (run L m rng (Instances batch_inputs) None Sample) (\<lambda>(t, s, rng').
     ebind (tensorToOutput m t) (\<lambda>out.
       sample_repeats L m batch_inputs n rng' (target @ out) (sc @ s)))"

text \<open>\<^verbatim>\<open>sampleAndScore\<close>; \<^verbatim>\<open>range(nRepeats)\<close> is empty for a negative \<open>nRepeats\<close>.\<close>

definition sampleAndScore :: "'rng layers \<Rightarrow> 'a robustfill \<Rightarrow> 'rng \<Rightarrow> 'a list list list list
    \<Rightarrow> int option \<Rightarrow> 'a error + ('a list list \<times> float32 list \<times> 'rng)" where
  "sampleAndScore L m rng batch_inputs nRepeats =
     ebind (inputsToTensors m batch_inputs) (\<lambda>inputs.
       case nRepeats of
         None \<Rightarrow>
           ebind (run L m rng (Instances batch_inputs) None Sample) (\<lambda>(target, sc, rng').
           ebind (tensorToOutput m target) (\<lambda>out. Inr (out, sc, rng')))
       | Some n \<Rightarrow> sample_repeats L m batch_inputs (nat n) rng [] [])"

section \<open>Vocabulary transfer\<close>

text \<open>\<^verbatim>\<open>x[j:j+1]\<close> and \<^verbatim>\<open>x[-1:]\<close> of a list or of the rows of a tensor.\<close>

definition slice1 :: "nat \<Rightarrow> 'b list \<Rightarrow> 'b list" where
  "slice1 j xs = take 1 (drop j xs)"

definition last1 :: "'b list \<Rightarrow> 'b list" where
  "last1 xs = drop (length xs - 1) xs"

text \<open>
  One pass of the loop of \<^verbatim>\<open>with_target_vocabulary\<close>, for the token \<open>tok\<close> of the new
  vocabulary: what is appended to \<open>V_weight\<close>, \<open>V_bias\<close> and \<open>decoder_ih\<close>.
\<close>

definition transfer_piece :: "'a robustfill \<Rightarrow> 'a \<Rightarrow> ftensor2 \<times> real list \<times> ftensor2" where
  "transfer_piece m tok =
     (if tok \<in> set (target_vocabulary m) then
        (let j = index_of tok (target_vocabulary m)
         in (slice1 j (V_weight m), slice1 j (V_bias m), map (slice1 j) (decoder_cell_weight_ih m)))
      else
        ([replicate (size1 (V_weight m)) 0], [- 10],
         replicate (size0 (decoder_cell_weight_ih m)) [0]))"

definition clear_optimiser :: "'a robustfill \<Rightarrow> 'a robustfill" where
  "clear_optimiser m = m\<lparr>opt := False, optstate := False\<rparr>"

text \<open>
  \<^verbatim>\<open>with_target_vocabulary\<close>. The first component is the object \<^verbatim>\<open>self\<close> after the call,
  the second is what the call returns: nothing for an unchanged vocabulary, and otherwise
  the deep copy of the object that the assignments to \<^verbatim>\<open>self\<close> have updated.
\<close>

definition with_target_vocabulary :: "'a robustfill \<Rightarrow> 'a list \<Rightarrow> 'a robustfill \<times> 'a robustfill option" where
  "with_target_vocabulary self new_vocabulary =
     (if new_vocabulary = target_vocabulary self then (self, None)
      else
        (let pieces = map (transfer_piece self) new_vocabulary;
             Vw = map (\<lambda>(w, b, d). w) pieces @ [last1 (V_weight self)];
             Vb = map (\<lambda>(w, b, d). b) pieces @ [last1 (V_bias self)];
             decoder_ih = map (\<lambda>(w, b, d). d) pieces @ [map last1 (decoder_cell_weight_ih self)];
             self1 = self\<lparr>target_vocabulary := new_vocabulary,
                          v_target := length new_vocabulary,
                          V_weight := concat Vw,
                          V_bias := concat Vb,
                          V_out_features := length (concat Vb),
                          decoder_cell_weight_ih := cat_dim1 decoder_ih,
                          decoder_cell_input_size := size1 (cat_dim1 decoder_ih)\<rparr>;
             self2 = refreshVocabularyIndex (clear_optimiser self1)
         in (self2, Some self2)))"

text \<open>
  Names for what the loop gives the token \<open>tok\<close> of the new vocabulary when every slice
  is in range: its weight row, its bias entry and its entry in the row \<open>row\<close> of the
  decoder's input weights. They only shorten the statements of the lemmas below.
\<close>

definition new_W :: "'a robustfill \<Rightarrow> 'a \<Rightarrow> real list" where
  "new_W m tok = (if tok \<in> set (target_vocabulary m) then V_weight m ! index_of tok (target_vocabulary m)
                  else replicate (size1 (V_weight m)) 0)"

definition new_b :: "'a robustfill \<Rightarrow> 'a \<Rightarrow> real" where
  "new_b m tok = (if tok \<in> set (target_vocabulary m) then V_bias m ! index_of tok (target_vocabulary m)
                  else - 10)"

definition new_d :: "'a robustfill \<Rightarrow> 'a \<Rightarrow> real list \<Rightarrow> real" where
  "new_d m tok row = (if tok \<in> set (target_vocabulary m) then row ! index_of tok (target_vocabulary m)
                  else 0)"

text \<open>The shapes that \<^verbatim>\<open>__init__\<close> gives the parameters of the output side.\<close>

definition shapes_ok :: "'a robustfill \<Rightarrow> bool" where
  "shapes_ok m \<longleftrightarrow>
     length (V_weight m) = length (target_vocabulary m) + 1 \<and>
     length (V_bias m) = length (target_vocabulary m) + 1 \<and>
     rect (length (target_vocabulary m) + 1) (decoder_cell_weight_ih m)"

section \<open>The decoder loop in score mode\<close>

text \<open>
  The log-softmax matrix that time step \<open>u\<close> of score mode computes, when the loop from
  the state \<open>s0\<close> reaches that step.
\<close>

definition logsoftmax_at :: "'rng layers \<Rightarrow> 'a robustfill \<Rightarrow> ftensor3 list
    \<Rightarrow> xreal list list list \<Rightarrow> nat \<Rightarrow> ftensor3 \<Rightarrow> 'rng dec_state \<Rightarrow> nat \<Rightarrow> float32 list list" where
  "logsoftmax_at L m Hl ml n_examples target_scatter s0 u =
     projr (step_logsoftmax L m Hl ml n_examples
              (projr (decoder_state_at L m Score Hl ml n_examples target_scatter s0 u)))"

text \<open>
  The shapes of the decoder loop for a batch of \<open>B\<close> elements over \<open>T\<close> time steps: the
  score, the active flags, every target row and every log-softmax matrix have one entry
  (or row) per batch element.
\<close>

definition decoder_shapes :: "'rng layers \<Rightarrow> 'a robustfill \<Rightarrow> ftensor3 list
    \<Rightarrow> xreal list list list \<Rightarrow> nat \<Rightarrow> ftensor3 \<Rightarrow> 'rng dec_state \<Rightarrow> nat \<Rightarrow> nat \<Rightarrow> bool" where
  "decoder_shapes L m Hl ml n_examples target_scatter s0 B T \<longleftrightarrow>
     length (d_score s0) = B \<and> length (d_active s0) = B \<and>
     (\<forall>u < T. length (d_target s0 ! u) = B \<and>
        length (logsoftmax_at L m Hl ml n_examples target_scatter s0 u) = B)"

section \<open>A small concrete model\<close>

text \<open>
  One encoder over the input vocabulary \<open>A, B\<close>, the target vocabulary \<open>a, b\<close>, an
  embedding of size 2 and a decoder cell with two gate rows.
\<close>

definition m0 :: "char robustfill" where
  "m0 = init [''AB''] ''ab'' [[1, 2], [3, 4], [5, 6]] [7, 8, 9] [[1, 2, 3], [4, 5, 6]]"

text \<open>
  Concrete layers for one encoder, a batch of one and hidden size one: cells that keep
  their state, a linear layer \<^verbatim>\<open>W\<close> that returns zeros and zero attention scores. With
  them, the last encoder's hidden states \<open>H0\<close> and attention mask \<open>mask0\<close> for an input of
  two positions, the target \<open>target0\<close> (token \<open>a\<close>, then the end-of-sequence id, then token
  \<open>b\<close> where padding would be), its one-hot form \<open>tsc0\<close> and the decoder state \<open>s00\<close>
  before the first time step.
\<close>

definition L0 :: "unit layers" where
  "L0 = \<lparr>cell_kind = GRU,
         encoder_init_h = [[0]],
         encoder_init_cs = [],
         decoder_init_c = [[0]],
         encoder_cells = (\<lambda>i x st. st),
         decoder_cell = (\<lambda>w x st. st),
         W_linear = map (\<lambda>row. [0, 0]),
         As_bilinear = (\<lambda>i x y. 0),
         multinomial = (\<lambda>r p. (map (\<lambda>row. 0) p, r))\<rparr>"

definition H0 :: "ftensor3 list" where
  "H0 = [[[[0]], [[0]]]]"

definition mask0 :: "xreal list list list" where
  "mask0 = [[[Fin 0], [NegInf]]]"

definition target0 :: tensor2 where
  "target0 = [[0], [2], [1]]"

definition tsc0 :: ftensor3 where
  "tsc0 = [[[1, 0, 0]], [[0, 0, 1]], [[0, 1, 0]]]"

definition s00 :: "unit dec_state" where
  "s00 = decoder_start L0 target0 [[[0]]] 1 1 ()"

text \<open>
  A model whose output bias spreads the logits over the float32 range (weights zero, bias
  \<open>3e38, 0, -3e38\<close>), and a target that is the token \<open>a\<close>, the end-of-sequence id and one
  position of padding, with its one-hot form and the decoder state before the first step.
\<close>

definition m_wide :: "char robustfill" where
  "m_wide = init [''AB''] ''ab'' [[0, 0], [0, 0], [0, 0]]
     [300000000000000000000000000000000000000, 0, - 300000000000000000000000000000000000000]
     [[1, 2, 3], [4, 5, 6]]"

definition target_pad :: tensor2 where
  "target_pad = [[0], [2], [2]]"

definition tsc_pad :: ftensor3 where
  "tsc_pad = [[[1, 0, 0]], [[0, 0, 1]], [[0, 0, 1]]]"

definition s_pad :: "unit dec_state" where
  "s_pad = decoder_start L0 target_pad [[[0]]] 1 1 ()"

section \<open>Properties of the vocabulary codec\<close>

lemma index_from_Some:
  "index_from xs j m x = Some i \<Longrightarrow>
   m x = Some i \<or> (j \<le> i \<and> i - j < length xs \<and> xs ! (i - j) = x)"
proof (induction xs arbitrary: j m)
  case Nil
  then show ?case by simp
next
  case (Cons y ys)
  from Cons.prems have "index_from ys (Suc j) (m(y \<mapsto> j)) x = Some i" by simp
  from Cons.IH [OF this]
  have "(m(y \<mapsto> j)) x = Some i \<or> (Suc j \<le> i \<and> i - Suc j < length ys \<and> ys ! (i - Suc j) = x)" .
  then show ?case
  proof
    assume "(m(y \<mapsto> j)) x = Some i"
    then show ?thesis by (cases "x = y") auto
  next
    assume a: "Suc j \<le> i \<and> i - Suc j < length ys \<and> ys ! (i - Suc j) = x"
    then obtain d where d: "i - j = Suc d" "i - Suc j = d" by (cases "i - j") auto
    with a show ?thesis by auto
  qed
qed

lemma dom_index_from: "dom (index_from xs j m) = dom m \<union> set xs"
  by (induction xs arbitrary: j m) auto

lemma vocabulary_index_Some:
  "vocabulary_index vocab x = Some j \<Longrightarrow> j < length vocab \<and> vocab ! j = x"
  unfolding vocabulary_index_def using index_from_Some [of vocab 0 Map.empty x j] by simp

lemma dom_vocabulary_index: "dom (vocabulary_index vocab) = set vocab"
  unfolding vocabulary_index_def by (simp add: dom_index_from)

lemma vocabulary_index_None: "vocabulary_index vocab x = None \<longleftrightarrow> x \<notin> set vocab"
  using dom_vocabulary_index [of vocab] by (metis domIff)

lemma lookup_ids_ok:
  "set s \<subseteq> dom idx \<Longrightarrow> lookup_ids idx s = Inr (map (\<lambda>x. the (idx x)) s)"
  by (induction s) (auto split: option.splits)

lemma lookup_ids_Inr:
  "lookup_ids idx s = Inr ids \<Longrightarrow> set s \<subseteq> dom idx \<and> ids = map (\<lambda>x. the (idx x)) s"
  by (induction s arbitrary: ids) (auto split: option.splits sum.splits)

lemma lookup_ids_Inl:
  "lookup_ids idx s = Inl e \<Longrightarrow> \<exists>x \<in> set s. idx x = None \<and> e = KeyError x"
  by (induction s) (auto split: option.splits sum.splits)

lemma length_assign_column_prefix [simp]: "length (assign_column_prefix t i ids) = length t"
  by (simp add: assign_column_prefix_def)

lemma nth_assign_column_prefix:
  "k < length t \<Longrightarrow>
   assign_column_prefix t i ids ! k = (if k < length ids then (t ! k)[i := ids ! k] else t ! k)"
  by (simp add: assign_column_prefix_def nth_enumerate_eq)

lemma rect_nth: "rect B t \<Longrightarrow> k < length t \<Longrightarrow> length (t ! k) = B"
  by (simp add: rect_def)

lemma rect_assign_column_prefix: "rect B t \<Longrightarrow> rect B (assign_column_prefix t i ids)"
  unfolding rect_def all_set_conv_all_nth by (simp add: nth_assign_column_prefix)

lemma column_assign_other:
  "c \<noteq> i \<Longrightarrow> column (assign_column_prefix t i ids) c = column t c"
  by (rule nth_equalityI) (auto simp: column_def nth_assign_column_prefix)

lemma column_assign_same:
  assumes "rect B t" "i < B" "length ids \<le> length t"
  shows "column (assign_column_prefix t i ids) i = ids @ drop (length ids) (column t i)"
proof (rule nth_equalityI)
  show "length (column (assign_column_prefix t i ids) i) = length (ids @ drop (length ids) (column t i))"
    using assms by (simp add: column_def)
next
  fix k assume "k < length (column (assign_column_prefix t i ids) i)"
  then have k: "k < length t" by (simp add: column_def)
  then have "length (t ! k) = B" using assms(1) by (simp add: rect_def)
  with k assms show "column (assign_column_prefix t i ids) i ! k = (ids @ drop (length ids) (column t i)) ! k"
    by (auto simp: column_def nth_assign_column_prefix nth_append)
qed

lemma fill_columns_ok:
  assumes "rect B t" "i + length ss \<le> B" "\<forall>s \<in> set ss. length s \<le> length t \<and> set s \<subseteq> dom idx"
  shows "\<exists>t'. fill_columns idx ss i t = Inr t' \<and> length t' = length t \<and> rect B t' \<and>
           (\<forall>c. column t' c =
              (if i \<le> c \<and> c < i + length ss
               then map (\<lambda>x. the (idx x)) (ss ! (c - i)) @ drop (length (ss ! (c - i))) (column t c)
               else column t c))"
  using assms
proof (induction ss arbitrary: i t)
  case Nil
  then show ?case by auto
next
  case (Cons s ss)
  let ?ids = "map (\<lambda>x. the (idx x)) s"
  let ?t1 = "assign_column_prefix t i ?ids"
  have s: "length s \<le> length t" "set s \<subseteq> dom idx" using Cons.prems(3) by auto
  have i: "i < B" using Cons.prems(2) by simp
  have r1: "rect B ?t1" using Cons.prems(1) by (rule rect_assign_column_prefix)
  have "\<exists>t'. fill_columns idx ss (Suc i) ?t1 = Inr t' \<and> length t' = length ?t1 \<and> rect B t' \<and>
           (\<forall>c. column t' c =
              (if Suc i \<le> c \<and> c < Suc i + length ss
               then map (\<lambda>x. the (idx x)) (ss ! (c - Suc i)) @ drop (length (ss ! (c - Suc i))) (column ?t1 c)
               else column ?t1 c))"
    using Cons.prems by (intro Cons.IH [OF r1]) auto
  then obtain t' where t': "fill_columns idx ss (Suc i) ?t1 = Inr t'" "length t' = length t" "rect B t'"
    and cols: "\<And>c. column t' c =
              (if Suc i \<le> c \<and> c < Suc i + length ss
               then map (\<lambda>x. the (idx x)) (ss ! (c - Suc i)) @ drop (length (ss ! (c - Suc i))) (column ?t1 c)
               else column ?t1 c)"
    by auto
  have same: "column ?t1 i = ?ids @ drop (length s) (column t i)"
    using column_assign_same [OF Cons.prems(1) i, of ?ids] s by simp
  have t1_nil: "s = [] \<Longrightarrow> ?t1 = t"
    by (rule nth_equalityI) (auto simp: nth_assign_column_prefix)
  have run: "fill_columns idx (s # ss) i t = Inr t'"
  proof (cases "s = []")
    case True
    with t' t1_nil show ?thesis by simp
  next
    case False
    with t' lookup_ids_ok [OF s(2)] show ?thesis by simp
  qed
  have "column t' c =
              (if i \<le> c \<and> c < i + length (s # ss)
               then map (\<lambda>x. the (idx x)) ((s # ss) ! (c - i)) @ drop (length ((s # ss) ! (c - i))) (column t c)
               else column t c)" for c
  proof -
    consider "c < i" | "c = i" | "Suc i \<le> c"  by linarith
    then show ?thesis
    proof cases
      case 1
      then show ?thesis using cols [of c] by (simp add: column_assign_other)
    next
      case 2
      then show ?thesis using cols [of c] same by simp
    next
      case 3
      then obtain d where d: "c - i = Suc d" "c - Suc i = d" by (cases "c - i") auto
      with 3 show ?thesis using cols [of c] by (auto simp: column_assign_other)
    qed
  qed
  with run t' show ?case by blast
qed

lemma fold_max_ge: "a \<le> fold max xs (a::nat)"
  by (induction xs arbitrary: a) (auto intro: order_trans [OF max.cobounded2])

lemma fold_max_mem: "x \<in> set xs \<Longrightarrow> x \<le> fold max xs (a::nat)"
proof (induction xs arbitrary: a)
  case Nil
  then show ?case by simp
next
  case (Cons y ys)
  show ?case
  proof (cases "x = y")
    case True
    have "max y a \<le> fold max ys (max y a)" by (rule fold_max_ge)
    with True show ?thesis by simp
  next
    case False
    with Cons show ?thesis by simp
  qed
qed

lemma length_le_max_len: "s \<in> set seqs \<Longrightarrow> length s \<le> max_len seqs"
  unfolding max_len_def by (rule fold_max_mem) simp

lemma rect_ones_times: "rect c (ones_times r c v)"
  by (simp add: rect_def ones_times_def)

lemma column_ones_times: "i < c \<Longrightarrow> column (ones_times r c v) i = replicate r v"
  by (simp add: column_def ones_times_def map_replicate_const)

lemma size1_rect: "rect B t \<Longrightarrow> t \<noteq> [] \<Longrightarrow> size1 t = B"
  by (cases t) (simp_all add: size1_def rect_def)

lemma encode_columns_ok:
  assumes "seqs \<noteq> []" "\<forall>s \<in> set seqs. set s \<subseteq> dom idx"
  shows "\<exists>t. encode_columns idx v seqs = Inr t \<and> length t = max_len seqs + 1 \<and>
           size1 t = length seqs \<and> rect (length seqs) t \<and>
           (\<forall>i < length seqs. column t i =
              map (\<lambda>x. the (idx x)) (seqs ! i) @ replicate (max_len seqs + 1 - length (seqs ! i)) v)"
proof -
  let ?t0 = "ones_times (max_len seqs + 1) (length seqs) v"
  have len0: "length ?t0 = max_len seqs + 1" by (simp add: ones_times_def)
  have "\<forall>s \<in> set seqs. length s \<le> length ?t0 \<and> set s \<subseteq> dom idx"
    using assms(2) length_le_max_len [of _ seqs] len0 by fastforce
  from fill_columns_ok [OF rect_ones_times _ this, of 0]
  obtain t' where t': "fill_columns idx seqs 0 ?t0 = Inr t'" "length t' = length ?t0"
      "rect (length seqs) t'"
    and cols: "\<And>c. column t' c =
              (if 0 \<le> c \<and> c < 0 + length seqs
               then map (\<lambda>x. the (idx x)) (seqs ! (c - 0)) @ drop (length (seqs ! (c - 0))) (column ?t0 c)
               else column ?t0 c)"
    by auto
  have "t' \<noteq> []" using t'(2) len0 by auto
  then have sz: "size1 t' = length seqs" using t'(3) by (simp add: size1_rect)
  have "column t' i = map (\<lambda>x. the (idx x)) (seqs ! i) @ replicate (max_len seqs + 1 - length (seqs ! i)) v"
    if "i < length seqs" for i
  proof -
    have c0: "column ?t0 i = replicate (max_len seqs + 1) v" using that by (rule column_ones_times)
    from cols [of i] that
    have "column t' i = map (\<lambda>x. the (idx x)) (seqs ! i) @ drop (length (seqs ! i)) (column ?t0 i)"
      by simp
    then show ?thesis by (simp only: c0 drop_replicate)
  qed
  with t' sz len0 assms(1) show ?thesis by (simp add: encode_columns_def)
qed

lemma index_of_append_first: "v \<notin> set xs \<Longrightarrow> index_of v (xs @ v # ys) = length xs"
  by (induction xs) auto

lemma lookup_tokens_ok:
  "\<forall>x \<in> set ids. x < length vocab \<Longrightarrow> lookup_tokens vocab ids = Inr (map (\<lambda>x. vocab ! x) ids)"
  by (induction ids) auto

lemma decode_column_padded:
  assumes "\<forall>x \<in> set ids. x < v_target m" "v_target m = length (target_vocabulary m)"
  shows "decode_column m (ids @ replicate (Suc n) (v_target m)) = Inr (map (\<lambda>x. target_vocabulary m ! x) ids)"
proof (cases ids)
  case Nil
  then show ?thesis by (simp add: decode_column_def)
next
  case (Cons x xs)
  let ?v = "v_target m"
  have notin: "?v \<notin> set ids" using assms(1) by auto
  then have x: "x \<noteq> ?v" using Cons by auto
  have idx: "index_of ?v (ids @ ?v # replicate n ?v) = length ids"
    using notin by (rule index_of_append_first)
  have "decode_column m (ids @ ?v # replicate n ?v) =
          lookup_tokens (target_vocabulary m) (take (index_of ?v (ids @ ?v # replicate n ?v)) (ids @ ?v # replicate n ?v))"
    using x Cons by (simp add: decode_column_def)
  also have "\<dots> = lookup_tokens (target_vocabulary m) ids" by (simp only: idx) simp
  also have "\<dots> = Inr (map (\<lambda>x. target_vocabulary m ! x) ids)"
    using assms by (intro lookup_tokens_ok) auto
  finally show ?thesis by simp
qed

lemma collect_ok:
  "\<forall>x \<in> set xs. f x = Inr (g x) \<Longrightarrow> collect f xs = Inr (map g xs)"
  by (induction xs) auto

lemma decode_encoded_column:
  assumes ok: "codec_ok m" and s: "set s \<subseteq> set (target_vocabulary m)"
  shows "decode_column m (map (\<lambda>x. the (target_vocabulary_index m x)) s @ replicate (Suc n) (v_target m))
          = Inr s"
proof -
  let ?idx = "target_vocabulary_index m" and ?vocab = "target_vocabulary m"
  let ?ids = "map (\<lambda>x. the (?idx x)) s"
  have idx: "?idx = vocabulary_index ?vocab" and v: "v_target m = length ?vocab"
    using ok by (simp_all add: codec_ok_def)
  have each: "the (?idx x) < length ?vocab \<and> ?vocab ! the (?idx x) = x" if "x \<in> set s" for x
  proof -
    from that s have "x \<in> dom (vocabulary_index ?vocab)" by (auto simp: dom_vocabulary_index)
    then obtain j where "vocabulary_index ?vocab x = Some j" by auto
    with vocabulary_index_Some [of ?vocab x j] idx show ?thesis by simp
  qed
  have "\<forall>x \<in> set ?ids. x < v_target m" using each v by auto
  from decode_column_padded [OF this v, of n]
  have "decode_column m (?ids @ replicate (Suc n) (v_target m)) = Inr (map (\<lambda>x. ?vocab ! x) ?ids)" .
  also have "map (\<lambda>x. ?vocab ! x) ?ids = s" using each by (simp add: map_idI)
  finally show ?thesis .
qed

text \<open>
  Claim C2 (round trip). For a non-empty batch of token sequences over the target
  vocabulary, \<^verbatim>\<open>_targetToTensor\<close> returns a tensor, and \<^verbatim>\<open>_tensorToOutput\<close> of that
  tensor returns the original sequences; a sequence may be empty, and the batch that holds
  only the empty sequence is encoded as a single end-of-sequence id and decoded to the
  empty sequence. (A batch is a non-empty list of sequences: the padding length is the
  \<^verbatim>\<open>max\<close> over the batch.)
\<close>

theorem decode_encode_roundtrip:
  assumes "codec_ok m" and "targets \<noteq> []"
    and "\<forall>s \<in> set targets. set s \<subseteq> set (target_vocabulary m)"
  shows "(\<exists>t. targetToTensor m targets = Inr t \<and> tensorToOutput m t = Inr targets) \<and>
         targetToTensor m [[]] = Inr [[v_target m]] \<and> tensorToOutput m [[v_target m]] = Inr [[]]"
proof -
  let ?idx = "target_vocabulary_index m"
  have dom: "dom ?idx = set (target_vocabulary m)"
    using assms(1) by (simp add: codec_ok_def dom_vocabulary_index)
  with assms(3) have "\<forall>s \<in> set targets. set s \<subseteq> dom ?idx" by simp
  from encode_columns_ok [OF assms(2) this, of "v_target m"]
  obtain t where t: "encode_columns ?idx (v_target m) targets = Inr t" "size1 t = length targets"
    and cols: "\<And>i. i < length targets \<Longrightarrow> column t i =
              map (\<lambda>x. the (?idx x)) (targets ! i) @ replicate (max_len targets + 1 - length (targets ! i)) (v_target m)"
    by auto
  have "decode_column m (column t i) = Inr (targets ! i)" if "i < length targets" for i
  proof -
    have "length (targets ! i) \<le> max_len targets" using that by (simp add: length_le_max_len)
    then obtain n where n: "max_len targets + 1 - length (targets ! i) = Suc n"
      by (cases "max_len targets + 1 - length (targets ! i)") auto
    have "set (targets ! i) \<subseteq> set (target_vocabulary m)" using assms(3) that by simp
    from decode_encoded_column [OF assms(1) this, of n] cols [OF that] n show ?thesis by simp
  qed
  then have "collect (\<lambda>i. decode_column m (column t i)) [0..<length targets]
               = Inr (map (\<lambda>i. targets ! i) [0..<length targets])"
    by (intro collect_ok) simp
  then have "tensorToOutput m t = Inr targets" by (simp add: tensorToOutput_def t(2) map_nth)
  with t(1) have 1: "\<exists>t. targetToTensor m targets = Inr t \<and> tensorToOutput m t = Inr targets"
    by (simp add: targetToTensor_def)
  have 2: "targetToTensor m [[]] = Inr [[v_target m]]"
    by (simp add: targetToTensor_def encode_columns_def max_len_def ones_times_def)
  have 3: "tensorToOutput m [[v_target m]] = Inr [[]]"
    by (simp add: tensorToOutput_def size1_def column_def decode_column_def)
  from 1 2 3 show ?thesis by simp
qed

theorem decode_encode_roundtrip_witness:
  "(\<exists>t. targetToTensor m0 [''ab'', '''', ''b''] = Inr t \<and> tensorToOutput m0 t = Inr [''ab'', '''', ''b''])
   \<and> targetToTensor m0 [[]] = Inr [[v_target m0]] \<and> tensorToOutput m0 [[v_target m0]] = Inr [[]]"
proof -
  have ok: "codec_ok m0"
    by (simp add: codec_ok_def m0_def init_def refreshVocabularyIndex_def)
  have ne: "[''ab'', '''', ''b''] \<noteq> []" by simp
  have voc: "\<forall>s \<in> set [''ab'', '''', ''b'']. set s \<subseteq> set (target_vocabulary m0)"
    by (simp add: m0_def init_def refreshVocabularyIndex_def)
  from decode_encode_roundtrip [OF ok ne voc] show ?thesis .
qed

section \<open>Properties of the vocabulary transfer\<close>

lemma index_of_less: "x \<in> set xs \<Longrightarrow> index_of x xs < length xs \<and> xs ! index_of x xs = x"
  by (induction xs) auto

lemma index_of_nth_distinct: "distinct xs \<Longrightarrow> j < length xs \<Longrightarrow> index_of (xs ! j) xs = j"
  using index_of_less [of "xs ! j" xs] nth_eq_iff_index_eq [of xs "index_of (xs ! j) xs" j]
  by simp

lemma slice1_nth: "j < length xs \<Longrightarrow> slice1 j xs = [xs ! j]"
  by (simp add: slice1_def take_Suc_conv_app_nth [of 0] hd_drop_conv_nth)

lemma last1_last: "xs \<noteq> [] \<Longrightarrow> last1 xs = [last xs]"
  by (cases xs rule: rev_cases) (simp_all add: last1_def)

lemma transfer_piece_eq:
  assumes "shapes_ok m"
  shows "transfer_piece m tok =
           ([new_W m tok], [new_b m tok], map (\<lambda>row. [new_d m tok row]) (decoder_cell_weight_ih m))"
proof (cases "tok \<in> set (target_vocabulary m)")
  case True
  let ?j = "index_of tok (target_vocabulary m)"
  have j: "?j < length (target_vocabulary m)" using True by (simp add: index_of_less)
  with assms have lt: "?j < length (V_weight m)" "?j < length (V_bias m)"
    by (simp_all add: shapes_ok_def)
  have eq: "map (slice1 ?j) (decoder_cell_weight_ih m) = map (\<lambda>row. [row ! ?j]) (decoder_cell_weight_ih m)"
  proof (rule map_cong [OF refl])
    fix row assume "row \<in> set (decoder_cell_weight_ih m)"
    with assms have "length row = length (target_vocabulary m) + 1" by (simp add: shapes_ok_def rect_def)
    with j show "slice1 ?j row = [row ! ?j]" by (simp add: slice1_nth)
  qed
  show ?thesis using True lt
    by (simp add: transfer_piece_def new_W_def new_b_def new_d_def slice1_nth Let_def eq)
next
  case False
  then show ?thesis
    by (simp add: transfer_piece_def new_W_def new_b_def new_d_def size0_def map_replicate_const)
qed

lemma cat_dim1_columns:
  "cat_dim1 (map (\<lambda>x. map (\<lambda>row. [f x row]) rows) xs @ [map (\<lambda>row. [g row]) rows])
     = map (\<lambda>row. map (\<lambda>x. f x row) xs @ [g row]) rows"
proof (rule nth_equalityI)
  show "length (cat_dim1 (map (\<lambda>x. map (\<lambda>row. [f x row]) rows) xs @ [map (\<lambda>row. [g row]) rows]))
         = length (map (\<lambda>row. map (\<lambda>x. f x row) xs @ [g row]) rows)"
    by (cases xs) (simp_all add: cat_dim1_def)
next
  fix r assume "r < length (cat_dim1 (map (\<lambda>x. map (\<lambda>row. [f x row]) rows) xs @ [map (\<lambda>row. [g row]) rows]))"
  then have r: "r < length rows" by (cases xs) (simp_all add: cat_dim1_def)
  have "cat_dim1 (map (\<lambda>x. map (\<lambda>row. [f x row]) rows) xs @ [map (\<lambda>row. [g row]) rows]) ! r
         = concat (map (\<lambda>p. p ! r) (map (\<lambda>x. map (\<lambda>row. [f x row]) rows) xs @ [map (\<lambda>row. [g row]) rows]))"
    using r by (cases xs) (simp_all add: cat_dim1_def)
  also have "\<dots> = concat (map (\<lambda>x. [f x (rows ! r)]) xs) @ [g (rows ! r)]"
    using r by (simp add: comp_def)
  also have "concat (map (\<lambda>x. [f x (rows ! r)]) xs) = map (\<lambda>x. f x (rows ! r)) xs"
    by (induction xs) auto
  finally show "cat_dim1 (map (\<lambda>x. map (\<lambda>row. [f x row]) rows) xs @ [map (\<lambda>row. [g row]) rows]) ! r
         = map (\<lambda>row. map (\<lambda>x. f x row) xs @ [g row]) rows ! r"
    using r by simp
qed

lemma concat_singletons: "concat (map (\<lambda>x. [f x]) xs) = map f xs"
  by (induction xs) auto

lemma with_target_vocabulary_eq:
  assumes "shapes_ok m" "new \<noteq> target_vocabulary m"
  shows "\<exists>m'. with_target_vocabulary m new = (m', Some m') \<and>
           target_vocabulary m' = new \<and> v_target m' = length new \<and>
           target_vocabulary_index m' = vocabulary_index new \<and>
           V_weight m' = map (new_W m) new @ [last (V_weight m)] \<and>
           V_bias m' = map (new_b m) new @ [last (V_bias m)] \<and>
           decoder_cell_weight_ih m' =
             map (\<lambda>row. map (\<lambda>tok. new_d m tok row) new @ [last row]) (decoder_cell_weight_ih m)"
proof -
  have pieces: "map (transfer_piece m) new =
      map (\<lambda>tok. ([new_W m tok], [new_b m tok], map (\<lambda>row. [new_d m tok row]) (decoder_cell_weight_ih m))) new"
    using transfer_piece_eq [OF assms(1)] by simp
  have ne: "V_weight m \<noteq> []" "V_bias m \<noteq> []" using assms(1) by (auto simp: shapes_ok_def)
  have rows: "map last1 (decoder_cell_weight_ih m) = map (\<lambda>row. [last row]) (decoder_cell_weight_ih m)"
  proof (rule map_cong [OF refl])
    fix row assume "row \<in> set (decoder_cell_weight_ih m)"
    with assms(1) have "row \<noteq> []" by (auto simp: shapes_ok_def rect_def)
    then show "last1 row = [last row]" by (rule last1_last)
  qed
  show ?thesis
    using assms(2) ne
    by (simp add: with_target_vocabulary_def Let_def pieces comp_def case_prod_beta
        refreshVocabularyIndex_def clear_optimiser_def last1_last rows concat_singletons
        cat_dim1_columns)
qed

lemma with_target_vocabulary_keeps_invariants:
  assumes "shapes_ok m" "codec_ok m" "with_target_vocabulary m new = (m1, Some m')"
  shows "m1 = m' \<and> shapes_ok m' \<and> codec_ok m' \<and> \<not> opt m' \<and> \<not> optstate m'"
proof -
  have neq: "new \<noteq> target_vocabulary m"
    using assms(3) by (auto simp: with_target_vocabulary_def)
  from with_target_vocabulary_eq [OF assms(1) neq] assms(3)
  have m1: "m1 = m'" and voc: "target_vocabulary m' = new"
    and W: "V_weight m' = map (new_W m) new @ [last (V_weight m)]"
    and b: "V_bias m' = map (new_b m) new @ [last (V_bias m)]"
    and d: "decoder_cell_weight_ih m' = map (\<lambda>row. map (\<lambda>tok. new_d m tok row) new @ [last row]) (decoder_cell_weight_ih m)"
    by auto
  have sh: "shapes_ok m'" by (simp add: shapes_ok_def voc W b d rect_def)
  from assms(3) neq have m': "m' = refreshVocabularyIndex (clear_optimiser
        (m\<lparr>target_vocabulary := new, v_target := length new, V_weight := V_weight m',
           V_bias := V_bias m', V_out_features := V_out_features m',
           decoder_cell_weight_ih := decoder_cell_weight_ih m',
           decoder_cell_input_size := decoder_cell_input_size m'\<rparr>))"
    by (auto simp: with_target_vocabulary_def Let_def refreshVocabularyIndex_def clear_optimiser_def)
  have "codec_ok m' \<and> \<not> opt m' \<and> \<not> optstate m'"
    using assms(2) by (subst (1 2 3) m') (simp add: codec_ok_def refreshVocabularyIndex_def clear_optimiser_def)
  with m1 sh show ?thesis by simp
qed

lemma column_map_append:
  "i < length xs \<Longrightarrow> column (map (\<lambda>row. map (\<lambda>x. f x row) xs @ [g row]) rows) i = map (f (xs ! i)) rows"
  by (simp add: column_def nth_append)

lemma column_map_append_last:
  "column (map (\<lambda>row. map (\<lambda>x. f x row) xs @ [g row]) rows) (length xs) = map g rows"
  by (simp add: column_def nth_append)

lemma last_conv_nth_len: "length xs = Suc n \<Longrightarrow> last xs = xs ! n"
  by (cases xs rule: rev_cases) (simp_all add: nth_append)

text \<open>
  Claim C1 (vocabulary transfer preservation). When \<^verbatim>\<open>with_target_vocabulary\<close> returns a
  model for the new vocabulary \<open>new\<close> (it does for every vocabulary other than the current
  one), then in the returned model: for a token at position \<open>i\<close> of \<open>new\<close> that is at
  position \<open>j\<close> of the old, duplicate-free target vocabulary, row \<open>i\<close> of the output
  projection's weight, entry \<open>i\<close> of its bias and column \<open>i\<close> of the decoder's input
  weights are row \<open>j\<close>, entry \<open>j\<close> and column \<open>j\<close> of the old model; for a token of
  \<open>new\<close> that is not in the old vocabulary the bias entry is \<open>-10\<close> and the weight row and
  column are zero; and the end-of-sequence row, entry and column are last, at index
  \<open>length new\<close>, and equal those of the old model.
\<close>

theorem transfer_preserves_shared_tokens:
  assumes "shapes_ok m" and "distinct (target_vocabulary m)"
    and "with_target_vocabulary m new = (m1, Some m')"
  shows "target_vocabulary m' = new \<and>
    length (V_weight m') = length new + 1 \<and>
    length (V_bias m') = length new + 1 \<and>
    rect (length new + 1) (decoder_cell_weight_ih m') \<and>
    (\<forall>i < length new. \<forall>j < length (target_vocabulary m).
        target_vocabulary m ! j = new ! i \<longrightarrow>
          V_weight m' ! i = V_weight m ! j \<and>
          V_bias m' ! i = V_bias m ! j \<and>
          column (decoder_cell_weight_ih m') i = column (decoder_cell_weight_ih m) j) \<and>
    (\<forall>i < length new. new ! i \<notin> set (target_vocabulary m) \<longrightarrow>
          V_weight m' ! i = replicate (size1 (V_weight m)) 0 \<and>
          V_bias m' ! i = - 10 \<and>
          column (decoder_cell_weight_ih m') i = replicate (size0 (decoder_cell_weight_ih m)) 0) \<and>
    V_weight m' ! length new = V_weight m ! length (target_vocabulary m) \<and>
    V_bias m' ! length new = V_bias m ! length (target_vocabulary m) \<and>
    column (decoder_cell_weight_ih m') (length new) =
      column (decoder_cell_weight_ih m) (length (target_vocabulary m))"
proof -
  let ?old = "target_vocabulary m" and ?dec = "decoder_cell_weight_ih m"
  have neq: "new \<noteq> ?old"
    using assms(3) by (auto simp: with_target_vocabulary_def)
  from with_target_vocabulary_eq [OF assms(1) neq] assms(3)
  have voc: "target_vocabulary m' = new"
    and W: "V_weight m' = map (new_W m) new @ [last (V_weight m)]"
    and b: "V_bias m' = map (new_b m) new @ [last (V_bias m)]"
    and d: "decoder_cell_weight_ih m' = map (\<lambda>row. map (\<lambda>tok. new_d m tok row) new @ [last row]) ?dec"
    by auto
  have lW: "last (V_weight m) = V_weight m ! length ?old" and lb: "last (V_bias m) = V_bias m ! length ?old"
    using assms(1) by (simp_all add: shapes_ok_def last_conv_nth_len)
  have ld: "map last ?dec = column ?dec (length ?old)"
    unfolding column_def
  proof (rule map_cong [OF refl])
    fix row assume "row \<in> set ?dec"
    with assms(1) have "length row = Suc (length ?old)" by (simp add: shapes_ok_def rect_def)
    then show "last row = row ! length ?old" by (rule last_conv_nth_len)
  qed
  have shared: "V_weight m' ! i = V_weight m ! j \<and> V_bias m' ! i = V_bias m ! j \<and>
          column (decoder_cell_weight_ih m') i = column ?dec j"
    if "i < length new" "j < length ?old" "?old ! j = new ! i" for i j
  proof -
    have mem: "new ! i \<in> set ?old" using that(2,3) by (metis nth_mem)
    have j: "index_of (new ! i) ?old = j"
      using index_of_nth_distinct [OF assms(2) that(2)] that(3) by simp
    show ?thesis using that(1) mem j
      by (simp add: W b d nth_append column_map_append new_W_def new_b_def new_d_def column_def)
  qed
  have fresh: "V_weight m' ! i = replicate (size1 (V_weight m)) 0 \<and> V_bias m' ! i = - 10 \<and>
          column (decoder_cell_weight_ih m') i = replicate (size0 ?dec) 0"
    if "i < length new" "new ! i \<notin> set ?old" for i
    using that
    by (simp add: W b d nth_append column_map_append new_W_def new_b_def new_d_def size0_def
        map_replicate_const)
  have eos: "V_weight m' ! length new = V_weight m ! length ?old"
      "V_bias m' ! length new = V_bias m ! length ?old"
      "column (decoder_cell_weight_ih m') (length new) = column ?dec (length ?old)"
    by (simp_all add: W b d nth_append lW lb column_map_append_last ld)
  have shape: "length (V_weight m') = length new + 1" "length (V_bias m') = length new + 1"
      "rect (length new + 1) (decoder_cell_weight_ih m')"
    by (simp_all add: W b d rect_def)
  from voc shape shared fresh eos show ?thesis by blast
qed

theorem transfer_preserves_shared_tokens_witness:
  "\<exists>m1 m'. with_target_vocabulary m0 ''bc'' = (m1, Some m') \<and>
     target_vocabulary m' = ''bc'' \<and>
     V_weight m' ! 0 = V_weight m0 ! 1 \<and> V_bias m' ! 0 = V_bias m0 ! 1 \<and>
     column (decoder_cell_weight_ih m') 0 = column (decoder_cell_weight_ih m0) 1 \<and>
     V_weight m' ! 1 = [0, 0] \<and> V_bias m' ! 1 = - 10 \<and>
     column (decoder_cell_weight_ih m') 1 = [0, 0] \<and>
     V_weight m' ! 2 = V_weight m0 ! 2 \<and> V_bias m' ! 2 = V_bias m0 ! 2 \<and>
     column (decoder_cell_weight_ih m') 2 = column (decoder_cell_weight_ih m0) 2"
proof -
  have ok: "shapes_ok m0"
    by (simp add: shapes_ok_def m0_def init_def refreshVocabularyIndex_def rect_def)
  have dist: "distinct (target_vocabulary m0)"
    by (simp add: m0_def init_def refreshVocabularyIndex_def)
  have old: "target_vocabulary m0 = ''ab''"
    by (simp add: m0_def init_def refreshVocabularyIndex_def)
  have sz: "size1 (V_weight m0) = 2" "size0 (decoder_cell_weight_ih m0) = 2"
    by (simp_all add: m0_def init_def refreshVocabularyIndex_def size1_def size0_def)
  obtain m1 r where r: "with_target_vocabulary m0 ''bc'' = (m1, r)" by (cases "with_target_vocabulary m0 ''bc''")
  have "r \<noteq> None" using r old by (auto simp: with_target_vocabulary_def Let_def)
  then obtain m' where m': "with_target_vocabulary m0 ''bc'' = (m1, Some m')" using r by auto
  note t = transfer_preserves_shared_tokens [OF ok dist m']
  from t have voc: "target_vocabulary m' = ''bc''" by simp
  from t have shared: "\<forall>i < length ''bc''. \<forall>j < length (target_vocabulary m0).
        target_vocabulary m0 ! j = ''bc'' ! i \<longrightarrow>
          V_weight m' ! i = V_weight m0 ! j \<and>
          V_bias m' ! i = V_bias m0 ! j \<and>
          column (decoder_cell_weight_ih m') i = column (decoder_cell_weight_ih m0) j" by blast
  from t have fresh: "\<forall>i < length ''bc''. ''bc'' ! i \<notin> set (target_vocabulary m0) \<longrightarrow>
          V_weight m' ! i = replicate (size1 (V_weight m0)) 0 \<and>
          V_bias m' ! i = - 10 \<and>
          column (decoder_cell_weight_ih m') i = replicate (size0 (decoder_cell_weight_ih m0)) 0" by blast
  from t have eos: "V_weight m' ! length ''bc'' = V_weight m0 ! length (target_vocabulary m0) \<and>
    V_bias m' ! length ''bc'' = V_bias m0 ! length (target_vocabulary m0) \<and>
    column (decoder_cell_weight_ih m') (length ''bc'') =
      column (decoder_cell_weight_ih m0) (length (target_vocabulary m0))" by blast
  from shared [rule_format, of 0 1] have s: "V_weight m' ! 0 = V_weight m0 ! 1 \<and> V_bias m' ! 0 = V_bias m0 ! 1 \<and>
     column (decoder_cell_weight_ih m') 0 = column (decoder_cell_weight_ih m0) 1"
    by (simp add: old)
  from fresh [rule_format, of 1] have f: "V_weight m' ! 1 = [0, 0] \<and> V_bias m' ! 1 = - 10 \<and>
     column (decoder_cell_weight_ih m') 1 = [0, 0]"
    by (simp add: old sz numeral_2_eq_2)
  from eos have e: "V_weight m' ! 2 = V_weight m0 ! 2 \<and> V_bias m' ! 2 = V_bias m0 ! 2 \<and>
     column (decoder_cell_weight_ih m') 2 = column (decoder_cell_weight_ih m0) 2"
    by (simp add: old numeral_2_eq_2)
  from m' voc s f e show ?thesis by blast
qed

section \<open>The original model after a transfer, and repeated sampling\<close>

text \<open>
  Claim C7 (the original model after a transfer). \<^verbatim>\<open>with_target_vocabulary\<close> assigns the
  new vocabulary and the rebuilt parameters to \<^verbatim>\<open>self\<close> and returns a deep copy of the
  updated object: for the model \<open>m0\<close> with target vocabulary \<open>a, b\<close> and the new
  vocabulary \<open>b, c\<close>, the original object holds the vocabulary \<open>b, c\<close> and the rebuilt
  weights after the call, and the returned copy is equal to it.
\<close>

theorem with_target_vocabulary_updates_self:
  "target_vocabulary m0 = ''ab'' \<and> V_bias m0 = [7, 8, 9] \<and>
   target_vocabulary (fst (with_target_vocabulary m0 ''bc'')) = ''bc'' \<and>
   V_weight (fst (with_target_vocabulary m0 ''bc'')) = [[3, 4], [0, 0], [5, 6]] \<and>
   V_bias (fst (with_target_vocabulary m0 ''bc'')) = [8, - 10, 9] \<and>
   decoder_cell_weight_ih (fst (with_target_vocabulary m0 ''bc'')) = [[2, 0, 3], [5, 0, 6]] \<and>
   snd (with_target_vocabulary m0 ''bc'') = Some (fst (with_target_vocabulary m0 ''bc''))"
  by (simp add: with_target_vocabulary_def m0_def init_def refreshVocabularyIndex_def
      clear_optimiser_def transfer_piece_def slice1_def last1_def size1_def size0_def
      cat_dim1_def Let_def)

lemma run_Instances_fails: "\<exists>e. run L m rng (Instances batch) target md = Inl e"
proof (cases "run_shapes m (Instances batch) target")
  case (Inl e)
  then show ?thesis by (simp add: run_def)
next
  case (Inr x)
  then show ?thesis by (cases x) (simp add: run_def)
qed

lemma sample_repeats_fails:
  "\<exists>e. sample_repeats L m batch (Suc n) rng target sc = Inl e"
  using run_Instances_fails [of L m rng batch None Sample] by auto

lemma sampleAndScore_never_returns:
  "(\<exists>e. sampleAndScore L m rng batch None = Inl e) \<and>
   (\<exists>e. sampleAndScore L m rng batch (Some (1 + int n)) = Inl e)"
proof -
  have n: "nat (1 + int n) = Suc n" by simp
  show ?thesis
  proof (cases "inputsToTensors m batch")
    case (Inl e)
    then show ?thesis by (simp add: sampleAndScore_def)
  next
    case (Inr ts)
    from run_Instances_fails [of L m rng batch None Sample]
    obtain e where e: "run L m rng (Instances batch) None Sample = Inl e" ..
    with Inr show ?thesis by (simp add: sampleAndScore_def n)
  qed
qed

text \<open>
  Claim C8 (\<^verbatim>\<open>sampleAndScore\<close>). The batch of one instance with the single example
  \<open>(A)\<close> is encoded without error, but \<^verbatim>\<open>sampleAndScore\<close> hands the batch itself to
  \<^verbatim>\<open>_run\<close>, which asks a tuple of sequences for its \<^verbatim>\<open>size\<close>: the call raises
  \<^verbatim>\<open>AttributeError\<close>, without a repeat count and with the repeat count 2, whatever the
  layers and the random numbers are.
\<close>

theorem sampleAndScore_raises:
  "inputsToTensors m0 [[[''A'']]] = Inr [[[[0], [2]]]] \<and>
   sampleAndScore L m0 rng [[[''A'']]] None = Inl AttributeError \<and>
   sampleAndScore L m0 rng [[[''A'']]] (Some 2) = Inl AttributeError"
proof -
  have enc: "inputsToTensors m0 [[[''A'']]] = Inr [[[[0], [2]]]]"
    by (simp add: inputsToTensors_def gather_sequences_def encode_columns_def m0_def init_def
        refreshVocabularyIndex_def vocabulary_index_def max_len_def ones_times_def
        assign_column_prefix_def)
  have n: "n_encoders m0 = 1" by (simp add: m0_def init_def refreshVocabularyIndex_def)
  have shapes: "run_shapes m0 (Instances [[[''A'']]]) None = Inl AttributeError"
    by (simp add: run_shapes_def n)
  have r: "run L m0 rng (Instances [[[''A'']]]) None Sample = Inl AttributeError" for rng :: 'r and L
    by (simp add: run_def shapes)
  have rep: "sample_repeats L m0 [[[''A'']]] 2 rng [] [] = Inl AttributeError"
    by (simp add: numeral_2_eq_2 r)
  show ?thesis by (simp add: sampleAndScore_def enc r rep)
qed

section \<open>Unknown tokens\<close>

lemma collect_Inl: "collect f xs = Inl e \<Longrightarrow> \<exists>x \<in> set xs. f x = Inl e"
  by (induction xs) (auto split: sum.splits)

lemma collect_Inr: "collect f xs = Inr ys \<Longrightarrow> \<forall>x \<in> set xs. \<exists>y. f x = Inr y"
  by (induction xs arbitrary: ys) (auto split: sum.splits)

lemma fill_columns_Inl:
  "fill_columns idx ss i t = Inl e \<Longrightarrow> \<exists>s \<in> set ss. \<exists>x \<in> set s. idx x = None \<and> e = KeyError x"
proof (induction ss arbitrary: i t)
  case Nil
  then show ?case by simp
next
  case (Cons s ss)
  show ?case
  proof (cases "lookup_ids idx s")
    case (Inl e')
    show ?thesis
    proof (cases "s = []")
      case True
      with Inl show ?thesis by simp
    next
      case False
      with Inl Cons.prems have "e' = e" by simp
      with Inl lookup_ids_Inl [of idx s e] show ?thesis by auto
    qed
  next
    case (Inr ids)
    with Cons.prems have "\<exists>t'. fill_columns idx ss (Suc i) t' = Inl e"
      by (auto split: if_splits)
    with Cons.IH show ?thesis by auto
  qed
qed

lemma fill_columns_Inr:
  "fill_columns idx ss i t = Inr t' \<Longrightarrow> \<forall>s \<in> set ss. set s \<subseteq> dom idx"
proof (induction ss arbitrary: i t)
  case Nil
  then show ?case by simp
next
  case (Cons s ss)
  show ?case
  proof (cases "s = []")
    case True
    with Cons.prems have "fill_columns idx ss (Suc i) t = Inr t'" by simp
    with Cons.IH True show ?thesis by auto
  next
    case False
    with Cons.prems obtain ids where ids: "lookup_ids idx s = Inr ids"
      and rest: "fill_columns idx ss (Suc i) (assign_column_prefix t i ids) = Inr t'"
      by (auto split: sum.splits)
    from lookup_ids_Inr [OF ids] Cons.IH [OF rest] show ?thesis by auto
  qed
qed

lemma encode_columns_Inl:
  "encode_columns idx v seqs = Inl e \<Longrightarrow>
   (seqs = [] \<and> e = ValueError) \<or> (\<exists>s \<in> set seqs. \<exists>x \<in> set s. idx x = None \<and> e = KeyError x)"
  by (auto simp: encode_columns_def split: if_splits dest: fill_columns_Inl)

lemma encode_columns_Inr:
  "encode_columns idx v seqs = Inr t \<Longrightarrow> seqs \<noteq> [] \<and> (\<forall>s \<in> set seqs. set s \<subseteq> dom idx)"
  by (auto simp: encode_columns_def split: if_splits dest: fill_columns_Inr)

lemma encode_columns_KeyError_iff:
  "(\<exists>x. encode_columns idx v seqs = Inl (KeyError x)) \<longleftrightarrow> (\<exists>s \<in> set seqs. \<not> set s \<subseteq> dom idx)"
proof
  assume "\<exists>x. encode_columns idx v seqs = Inl (KeyError x)"
  then obtain x where "encode_columns idx v seqs = Inl (KeyError x)" ..
  from encode_columns_Inl [OF this] show "\<exists>s \<in> set seqs. \<not> set s \<subseteq> dom idx" by auto
next
  assume a: "\<exists>s \<in> set seqs. \<not> set s \<subseteq> dom idx"
  show "\<exists>x. encode_columns idx v seqs = Inl (KeyError x)"
  proof (cases "encode_columns idx v seqs")
    case (Inl e)
    from encode_columns_Inl [OF this] a Inl show ?thesis by auto
  next
    case (Inr t)
    from encode_columns_Inr [OF this] a show ?thesis by auto
  qed
qed

lemma collect_Inr_upt: "collect f [0..<n] = Inr ys \<Longrightarrow> i < n \<Longrightarrow> \<exists>y. f i = Inr y"
  using collect_Inr [of f "[0..<n]" ys] by simp

lemma gather_sequences_ok:
  assumes "\<forall>inst \<in> set batch. j < length inst \<and> i < length (inst ! j)"
  shows "gather_sequences batch j i = Inr (map (\<lambda>x. x ! j ! i) batch)"
  unfolding gather_sequences_def using assms by (intro collect_ok) simp

lemma well_shaped_gather:
  assumes "well_shaped m (x0 # rest)" "j < length x0" "i < n_encoders m"
  shows "gather_sequences (x0 # rest) j i = Inr (map (\<lambda>x. x ! j ! i) (x0 # rest))"
proof (rule gather_sequences_ok)
  show "\<forall>inst \<in> set (x0 # rest). j < length inst \<and> i < length (inst ! j)"
  proof
    fix inst assume inst: "inst \<in> set (x0 # rest)"
    with assms(1) have len: "length inst = length x0" and ex: "\<forall>ex \<in> set inst. length ex = n_encoders m"
      by (auto simp: well_shaped_def)
    from len assms(2) have j: "j < length inst" by simp
    then have "inst ! j \<in> set inst" by simp
    with ex assms(3) j show "j < length inst \<and> i < length (inst ! j)" by auto
  qed
qed

lemma inputs_step:
  assumes ok: "codec_ok m" and ws: "well_shaped m (x0 # rest)" and j: "j < length x0" and i: "i < n_encoders m"
  shows "ebind (gather_sequences (x0 # rest) j i) (\<lambda>inputs.
                if i < length (v_inputs m) \<and> i < length (input_vocabularies_index m)
                then encode_columns (input_vocabularies_index m ! i) (v_inputs m ! i) inputs
                else Inl IndexError)
         = encode_columns (vocabulary_index (input_vocabularies m ! i)) (length (input_vocabularies m ! i))
             (map (\<lambda>x. x ! j ! i) (x0 # rest))"
proof -
  from ok i have "i < length (v_inputs m)" "i < length (input_vocabularies_index m)"
    "input_vocabularies_index m ! i = vocabulary_index (input_vocabularies m ! i)"
    "v_inputs m ! i = length (input_vocabularies m ! i)"
    by (simp_all add: codec_ok_def)
  then show ?thesis by (simp add: well_shaped_gather [OF ws j i])
qed

lemma inputsToTensors_Inl:
  assumes ok: "codec_ok m" and ws: "well_shaped m batch" and e: "inputsToTensors m batch = Inl e"
  shows "\<exists>x. e = KeyError x \<and> unknown_input_token m batch x"
proof -
  from ws obtain x0 rest where batch: "batch = x0 # rest" by (cases batch) (auto simp: well_shaped_def)
  from collect_Inl [OF e [unfolded inputsToTensors_def]] batch
  obtain i where i: "i < n_encoders m"
    and ei: "collect (\<lambda>j. ebind (gather_sequences batch j i) (\<lambda>inputs.
                if i < length (v_inputs m) \<and> i < length (input_vocabularies_index m)
                then encode_columns (input_vocabularies_index m ! i) (v_inputs m ! i) inputs
                else Inl IndexError)) [0..<length x0] = Inl e"
    by auto
  from collect_Inl [OF ei] obtain j where j: "j < length x0"
    and ej: "ebind (gather_sequences batch j i) (\<lambda>inputs.
                if i < length (v_inputs m) \<and> i < length (input_vocabularies_index m)
                then encode_columns (input_vocabularies_index m ! i) (v_inputs m ! i) inputs
                else Inl IndexError) = Inl e"
    by auto
  from ej inputs_step [OF ok ws [unfolded batch] j i] batch
  have "encode_columns (vocabulary_index (input_vocabularies m ! i)) (length (input_vocabularies m ! i))
             (map (\<lambda>x. x ! j ! i) batch) = Inl e" by simp
  from encode_columns_Inl [OF this] batch
  obtain s x where s: "s \<in> set (map (\<lambda>x. x ! j ! i) batch)" and x: "x \<in> set s"
    and none: "vocabulary_index (input_vocabularies m ! i) x = None" and ex: "e = KeyError x"
    by auto
  from s obtain inst where inst: "inst \<in> set batch" "s = inst ! j ! i" by auto
  from ws inst(1) batch j have "j < length inst" by (auto simp: well_shaped_def)
  then have "inst ! j \<in> set inst" by simp
  with inst x none i have "unknown_input_token m batch x"
    unfolding unknown_input_token_def vocabulary_index_None by blast
  with ex show ?thesis by blast
qed

lemma inputsToTensors_Inr:
  assumes ok: "codec_ok m" and ws: "well_shaped m batch" and r: "inputsToTensors m batch = Inr ts"
  shows "\<not> unknown_input_token m batch x"
proof
  assume "unknown_input_token m batch x"
  then obtain inst ex i where inst: "inst \<in> set batch" and ex: "ex \<in> set inst" and i: "i < n_encoders m"
    and x: "x \<in> set (ex ! i)" "x \<notin> set (input_vocabularies m ! i)"
    by (auto simp: unknown_input_token_def)
  from ws obtain x0 rest where batch: "batch = x0 # rest" by (cases batch) (auto simp: well_shaped_def)
  from ex obtain j where j: "j < length inst" "ex = inst ! j" by (auto simp: in_set_conv_nth)
  from ws inst batch j(1) have j0: "j < length x0" by (auto simp: well_shaped_def)
  from collect_Inr_upt [OF r [unfolded inputsToTensors_def] i] batch
  obtain y where "collect (\<lambda>j. ebind (gather_sequences batch j i) (\<lambda>inputs.
                if i < length (v_inputs m) \<and> i < length (input_vocabularies_index m)
                then encode_columns (input_vocabularies_index m ! i) (v_inputs m ! i) inputs
                else Inl IndexError)) [0..<length x0] = Inr y"
    by auto
  from collect_Inr_upt [OF this j0]
  obtain t where "ebind (gather_sequences batch j i) (\<lambda>inputs.
                if i < length (v_inputs m) \<and> i < length (input_vocabularies_index m)
                then encode_columns (input_vocabularies_index m ! i) (v_inputs m ! i) inputs
                else Inl IndexError) = Inr t"
    by auto
  with inputs_step [OF ok ws [unfolded batch] j0 i] batch
  have "encode_columns (vocabulary_index (input_vocabularies m ! i)) (length (input_vocabularies m ! i))
             (map (\<lambda>x. x ! j ! i) batch) = Inr t" by simp
  from encode_columns_Inr [OF this] inst j(2)
  have "set (ex ! i) \<subseteq> dom (vocabulary_index (input_vocabularies m ! i))" by auto
  with x show False by (auto simp: dom_vocabulary_index)
qed

lemma targetToTensor_Inl_KeyError:
  assumes ok: "codec_ok m" and e: "targetToTensor m targets = Inl (KeyError x)"
  shows "unknown_target_token m targets x"
proof -
  from ok have idx: "target_vocabulary_index m = vocabulary_index (target_vocabulary m)"
    by (simp add: codec_ok_def)
  from encode_columns_Inl [OF e [unfolded targetToTensor_def]]
  obtain s where "s \<in> set targets" "x \<in> set s" "target_vocabulary_index m x = None" by auto
  then show ?thesis unfolding unknown_target_token_def idx vocabulary_index_None by blast
qed

lemma targetToTensor_KeyError_iff:
  assumes ok: "codec_ok m"
  shows "(\<exists>x. targetToTensor m targets = Inl (KeyError x)) \<longleftrightarrow> (\<exists>x. unknown_target_token m targets x)"
proof -
  from ok have "dom (target_vocabulary_index m) = set (target_vocabulary m)"
    by (simp add: codec_ok_def dom_vocabulary_index)
  then have "(\<exists>s \<in> set targets. \<not> set s \<subseteq> dom (target_vocabulary_index m)) \<longleftrightarrow>
        (\<exists>x. unknown_target_token m targets x)"
    unfolding unknown_target_token_def by auto
  with encode_columns_KeyError_iff [of "target_vocabulary_index m" "v_target m" targets]
  show ?thesis by (simp add: targetToTensor_def)
qed

lemma inputsToTensors_unknown:
  assumes ok: "codec_ok m" and ws: "well_shaped m batch" and u: "unknown_input_token m batch y"
  shows "\<exists>x. unknown_input_token m batch x \<and> inputsToTensors m batch = Inl (KeyError x)"
proof (cases "inputsToTensors m batch")
  case (Inl e)
  from inputsToTensors_Inl [OF ok ws Inl] Inl show ?thesis by auto
next
  case (Inr ts)
  from inputsToTensors_Inr [OF ok ws Inr, of y] u show ?thesis by simp
qed

text \<open>
  Claim C9 (unknown tokens), as the code has it. The claim as written does not hold for
  a batch whose instances differ in their number of examples: \<^verbatim>\<open>_inputsToTensors\<close> reads
  as many examples of every instance as the first instance has. For the batch of the
  instance with the one example \<open>A\<close> and the instance with the examples \<open>A\<close> and \<open>Z\<close>,
  the token \<open>Z\<close> is not in the vocabulary and the encoding returns the tensor of the
  first examples, the second example dropped. With the two instances in the other order
  the encoding raises \<^verbatim>\<open>IndexError\<close>, not \<^verbatim>\<open>KeyError\<close>.
\<close>

theorem unknown_token_dropped_example:
  "unknown_input_token m0 [[[''A'']], [[''A''], [''Z'']]] CHR ''Z'' \<and>
   inputsToTensors m0 [[[''A'']], [[''A''], [''Z'']]] = Inr [[[[0, 0], [2, 2]]]] \<and>
   unknown_input_token m0 [[[''A''], [''Z'']], [[''A'']]] CHR ''Z'' \<and>
   inputsToTensors m0 [[[''A''], [''Z'']], [[''A'']]] = Inl IndexError"
  by (simp add: unknown_input_token_def inputsToTensors_def gather_sequences_def
      encode_columns_def max_len_def ones_times_def assign_column_prefix_def
      vocabulary_index_def m0_def init_def refreshVocabularyIndex_def)

text \<open>
  Claim C9 (unknown tokens), amended. For a batch in which every instance has as many
  examples as the first one and every example has one sequence per encoder:
  \<^verbatim>\<open>_inputsToTensors\<close> raises \<^verbatim>\<open>KeyError\<close> exactly when some token of an input
  sequence is not in the vocabulary of its encoder, \<^verbatim>\<open>_targetToTensor\<close> raises
  \<^verbatim>\<open>KeyError\<close> exactly when some token of a target sequence is not in the target
  vocabulary, and the exception carries such a token (no tensor is produced with the token
  dropped or replaced). \<^verbatim>\<open>score\<close>, \<^verbatim>\<open>sample\<close> and \<^verbatim>\<open>sampleAndScore\<close> then end with that
  exception whatever the layers and the random numbers are: it is raised by the encoding,
  before \<^verbatim>\<open>_run\<close> is entered.
\<close>

theorem unknown_token_raises_at_encode_time:
  assumes "codec_ok m" and "well_shaped m batch"
  shows
    "((\<exists>x. inputsToTensors m batch = Inl (KeyError x)) \<longleftrightarrow> (\<exists>x. unknown_input_token m batch x)) \<and>
     (\<forall>x. inputsToTensors m batch = Inl (KeyError x) \<longrightarrow> unknown_input_token m batch x) \<and>
     ((\<exists>x. targetToTensor m targets = Inl (KeyError x)) \<longleftrightarrow> (\<exists>x. unknown_target_token m targets x)) \<and>
     (\<forall>x. targetToTensor m targets = Inl (KeyError x) \<longrightarrow> unknown_target_token m targets x) \<and>
     ((\<exists>x. unknown_input_token m batch x) \<longrightarrow>
        (\<exists>x. unknown_input_token m batch x \<and>
             score L m rng batch targets = Inl (KeyError x) \<and>
             sample L m rng batch = Inl (KeyError x) \<and>
             sampleAndScore L m rng batch r = Inl (KeyError x))) \<and>
     ((\<forall>x. \<not> unknown_input_token m batch x) \<and> (\<exists>x. unknown_target_token m targets x) \<longrightarrow>
        (\<exists>x. unknown_target_token m targets x \<and> score L m rng batch targets = Inl (KeyError x)))"
proof -
  have in_carry: "unknown_input_token m batch x" if "inputsToTensors m batch = Inl (KeyError x)" for x
    using inputsToTensors_Inl [OF assms that] by simp
  have in_iff: "(\<exists>x. inputsToTensors m batch = Inl (KeyError x)) \<longleftrightarrow> (\<exists>x. unknown_input_token m batch x)"
    using in_carry inputsToTensors_unknown [OF assms] by blast
  have t_carry: "unknown_target_token m targets x" if "targetToTensor m targets = Inl (KeyError x)" for x
    using targetToTensor_Inl_KeyError [OF assms(1) that] .
  note t_iff = targetToTensor_KeyError_iff [OF assms(1), of targets]
  have ops_in: "\<exists>x. unknown_input_token m batch x \<and>
             score L m rng batch targets = Inl (KeyError x) \<and>
             sample L m rng batch = Inl (KeyError x) \<and>
             sampleAndScore L m rng batch r = Inl (KeyError x)"
    if "\<exists>x. unknown_input_token m batch x"
  proof -
    from that inputsToTensors_unknown [OF assms]
    obtain x where "unknown_input_token m batch x" "inputsToTensors m batch = Inl (KeyError x)" by blast
    then show ?thesis by (auto simp: score_def sample_def sampleAndScore_def)
  qed
  have ops_t: "\<exists>x. unknown_target_token m targets x \<and> score L m rng batch targets = Inl (KeyError x)"
    if none: "\<forall>x. \<not> unknown_input_token m batch x" and some: "\<exists>x. unknown_target_token m targets x"
  proof -
    obtain ts where ts: "inputsToTensors m batch = Inr ts"
    proof (cases "inputsToTensors m batch")
      case (Inl e)
      from inputsToTensors_Inl [OF assms Inl] none show ?thesis by blast
    next
      case (Inr ts)
      with that show ?thesis by blast
    qed
    from some t_iff obtain x where x: "targetToTensor m targets = Inl (KeyError x)" by blast
    with t_carry ts show ?thesis by (auto simp: score_def)
  qed
  from in_iff in_carry t_iff t_carry ops_in ops_t show ?thesis by blast
qed

theorem unknown_token_raises_at_encode_time_witness:
  "\<forall>L. inputsToTensors m0 [[[''AC'']]] = Inl (KeyError CHR ''C'') \<and>
     targetToTensor m0 [''ab'', ''bc''] = Inl (KeyError CHR ''c'') \<and>
     (\<exists>x. unknown_input_token m0 [[[''AC'']]] x \<and>
          score L m0 () [[[''AC'']]] [''ab'', ''bc''] = Inl (KeyError x) \<and>
          sample L m0 () [[[''AC'']]] = Inl (KeyError x)) \<and>
     (\<exists>x. unknown_target_token m0 [''ab'', ''bc''] x \<and>
          score L m0 () [[[''AB'']]] [''ab'', ''bc''] = Inl (KeyError x))"
proof
  fix L :: "unit layers"
  have ok: "codec_ok m0"
    by (simp add: codec_ok_def m0_def init_def refreshVocabularyIndex_def)
  have n: "n_encoders m0 = 1" "input_vocabularies m0 = [''AB'']" "target_vocabulary m0 = ''ab''"
    by (simp_all add: m0_def init_def refreshVocabularyIndex_def)
  have ws: "well_shaped m0 [[[''AC'']]]" "well_shaped m0 [[[''AB'']]]"
    by (simp_all add: well_shaped_def n)
  have ui: "unknown_input_token m0 [[[''AC'']]] CHR ''C''"
    by (simp add: unknown_input_token_def n)
  have nui: "\<forall>x. \<not> unknown_input_token m0 [[[''AB'']]] x"
    by (auto simp: unknown_input_token_def n)
  have ut: "unknown_target_token m0 [''ab'', ''bc''] CHR ''c''"
    by (simp add: unknown_target_token_def n)
  note t1 = unknown_token_raises_at_encode_time [OF ok ws(1), of "[''ab'', ''bc'']" L "()" None]
  note t2 = unknown_token_raises_at_encode_time [OF ok ws(2), of "[''ab'', ''bc'']" L "()" None]
  from t1 ui obtain x where x: "inputsToTensors m0 [[[''AC'']]] = Inl (KeyError x)" by blast
  with t1 have "unknown_input_token m0 [[[''AC'']]] x" by blast
  then have "x = CHR ''C''" by (auto simp: unknown_input_token_def n)
  with x have a: "inputsToTensors m0 [[[''AC'']]] = Inl (KeyError CHR ''C'')" by simp
  from t1 ut obtain y where y: "targetToTensor m0 [''ab'', ''bc''] = Inl (KeyError y)" by blast
  with t1 have "unknown_target_token m0 [''ab'', ''bc''] y" by blast
  then have "y = CHR ''c''" by (auto simp: unknown_target_token_def n)
  with y have b: "targetToTensor m0 [''ab'', ''bc''] = Inl (KeyError CHR ''c'')" by simp
  from t1 ui have c: "\<exists>x. unknown_input_token m0 [[[''AC'']]] x \<and>
          score L m0 () [[[''AC'']]] [''ab'', ''bc''] = Inl (KeyError x) \<and>
          sample L m0 () [[[''AC'']]] = Inl (KeyError x)" by blast
  from t2 nui ut have d: "\<exists>x. unknown_target_token m0 [''ab'', ''bc''] x \<and>
          score L m0 () [[[''AB'']]] [''ab'', ''bc''] = Inl (KeyError x)" by blast
  from a b c d show "inputsToTensors m0 [[[''AC'']]] = Inl (KeyError CHR ''C'') \<and>
     targetToTensor m0 [''ab'', ''bc''] = Inl (KeyError CHR ''c'') \<and>
     (\<exists>x. unknown_input_token m0 [[[''AC'']]] x \<and>
          score L m0 () [[[''AC'']]] [''ab'', ''bc''] = Inl (KeyError x) \<and>
          sample L m0 () [[[''AC'']]] = Inl (KeyError x)) \<and>
     (\<exists>x. unknown_target_token m0 [''ab'', ''bc''] x \<and>
          score L m0 () [[[''AB'']]] [''ab'', ''bc''] = Inl (KeyError x))" by blast
qed

section \<open>Active masks and the running score\<close>

lemma e_active_encoder_step:
  "e_active (encoder_step cell i att v inp scat k s) =
     (if k + 1 < length inp
      then (e_active s)[k + 1 := map2 (*) (e_active s ! k) (ne_byte v (inp ! k))]
      else e_active s)"
  by (simp add: encoder_step_def Let_def size0_def)

lemma encoder_active_invariant:
  fixes inp :: tensor2
  defines "s0 \<equiv> \<lambda>st0 B. \<lparr>e_state = st0, e_h = cell_get_h st0, e_hs = [],
        e_active = replicate (length inp) (replicate B (1::nat))\<rparr>"
  assumes "n \<le> length inp"
  shows "length (e_active (fold (encoder_step cell i att v inp scat) [0..<n] (s0 st0 B))) = length inp \<and>
    (\<forall>k < length inp. k = 0 \<or> n < k \<longrightarrow>
        e_active (fold (encoder_step cell i att v inp scat) [0..<n] (s0 st0 B)) ! k = replicate B 1) \<and>
    (\<forall>k < n. k + 1 < length inp \<longrightarrow>
        e_active (fold (encoder_step cell i att v inp scat) [0..<n] (s0 st0 B)) ! (k + 1) =
          map2 (*) (e_active (fold (encoder_step cell i att v inp scat) [0..<n] (s0 st0 B)) ! k)
            (ne_byte v (inp ! k)))"
  using assms(2)
proof (induction n)
  case 0
  then show ?case by (simp add: s0_def)
next
  case (Suc n)
  let ?s = "fold (encoder_step cell i att v inp scat) [0..<n] (s0 st0 B)"
  let ?A = "e_active ?s"
  let ?A' = "e_active (fold (encoder_step cell i att v inp scat) [0..<Suc n] (s0 st0 B))"
  from Suc have IH: "length ?A = length inp"
    "\<And>k. k < length inp \<Longrightarrow> k = 0 \<or> n < k \<Longrightarrow> ?A ! k = replicate B 1"
    "\<And>k. k < n \<Longrightarrow> k + 1 < length inp \<Longrightarrow> ?A ! (k + 1) = map2 (*) (?A ! k) (ne_byte v (inp ! k))"
    by auto
  have A': "?A' = (if n + 1 < length inp then ?A[n + 1 := map2 (*) (?A ! n) (ne_byte v (inp ! n))] else ?A)"
    by (simp add: e_active_encoder_step)
  have 1: "length ?A' = length inp" unfolding A' by (simp add: IH(1))
  have 2: "?A' ! k = replicate B 1" if "k < length inp" "k = 0 \<or> Suc n < k" for k
    unfolding A' using that IH(2) [of k] by auto
  have 3: "?A' ! (k + 1) = map2 (*) (?A' ! k) (ne_byte v (inp ! k))" if "k < Suc n" "k + 1 < length inp" for k
  proof (cases "k = n")
    case True
    with that IH(1) show ?thesis unfolding A' by simp
  next
    case False
    with that have "k < n" by simp
    with that IH(3) [of k] show ?thesis unfolding A' by simp
  qed
  from 1 2 3 show ?case by blast
qed

lemma encoder_loop_active:
  fixes inp :: tensor2
  defines "A \<equiv> \<lambda>cell i att v scat B st0. e_active (encoder_loop cell i att v inp scat B st0)"
  shows "length (A cell i att v scat B st0) = length inp"
    and "0 < length inp \<Longrightarrow> A cell i att v scat B st0 ! 0 = replicate B 1"
    and "k + 1 < length inp \<Longrightarrow>
          A cell i att v scat B st0 ! (k + 1) = map2 (*) (A cell i att v scat B st0 ! k) (ne_byte v (inp ! k))"
  using encoder_active_invariant [of "length inp" inp cell i att v scat st0 B]
  by (simp_all add: A_def encoder_loop_def size0_def)

lemma encoder_active_entries:
  fixes inp :: tensor2 and cell i att v scat st0
  assumes "rect B inp" "b < B"
  defines "A \<equiv> e_active (encoder_loop cell i att v inp scat B st0)"
  shows "k < length inp \<Longrightarrow> length (A ! k) = B \<and> (A ! k ! b = 0 \<or> A ! k ! b = 1)"
    and "k + 1 < length inp \<Longrightarrow> A ! (k + 1) ! b = A ! k ! b * (if inp ! k ! b \<noteq> v then 1 else 0)"
proof -
  have step: "A ! (j + 1) = map2 (*) (A ! j) (ne_byte v (inp ! j))" if "j + 1 < length inp" for j
    using encoder_loop_active(3) [OF that] by (simp add: A_def)
  have row: "length (inp ! j) = B" if "j < length inp" for j
    using assms(1) that by (simp add: rect_def)
  have ent: "length (A ! j) = B \<and> (A ! j ! b = 0 \<or> A ! j ! b = 1)" if "j < length inp" for j
    using that
  proof (induction j)
    case 0
    then show ?case using encoder_loop_active(2) [where inp = inp] assms(2)
      by (simp add: A_def)
  next
    case (Suc j)
    then have IH: "length (A ! j) = B" "A ! j ! b = 0 \<or> A ! j ! b = 1" by auto
    from Suc.prems have "A ! Suc j = map2 (*) (A ! j) (ne_byte v (inp ! j))"
      using step [of j] by simp
    with IH row [of j] Suc.prems assms(2) show ?case by (auto simp: ne_byte_def)
  qed
  show "k < length inp \<Longrightarrow> length (A ! k) = B \<and> (A ! k ! b = 0 \<or> A ! k ! b = 1)"
    using ent [of k] by simp
  show "A ! (k + 1) ! b = A ! k ! b * (if inp ! k ! b \<noteq> v then 1 else 0)" if "k + 1 < length inp"
  proof -
    from that have "length (A ! k) = B" using ent [of k] by simp
    with step [OF that] row [of k] that assms(2) show ?thesis by (simp add: ne_byte_def)
  qed
qed

lemma encoder_active_monotone:
  fixes inp :: tensor2
  assumes "rect B inp" "b < B" "k \<le> k'" "k' < length inp"
    and "e_active (encoder_loop cell i att v inp scat B st0) ! k ! b = 0"
  shows "e_active (encoder_loop cell i att v inp scat B st0) ! k' ! b = 0"
  using assms(3,4)
proof (induction k' rule: dec_induct)
  case base
  show ?case by (rule assms(5))
next
  case (step n)
  then have "e_active (encoder_loop cell i att v inp scat B st0) ! n ! b = 0" by simp
  moreover have "n + 1 < length inp" using step by simp
  ultimately show ?case using encoder_active_entries(2) [OF assms(1,2), where k = n] by simp
qed

lemma for_loop_append: "for_loop body (xs @ ys) s = ebind (for_loop body xs s) (for_loop body ys)"
proof (induction xs arbitrary: s)
  case Nil
  then show ?case by simp
next
  case (Cons x xs)
  then show ?case by (cases "body x s") simp_all
qed

subsection \<open>float32 arithmetic\<close>

lemma float32_max_pos: "0 < float32_max"
  by (simp add: float32_max_def)

lemma round32_in_range: "\<bar>x\<bar> \<le> float32_max \<Longrightarrow> round32 x = F32 x"
  by (auto simp: round32_def)

lemma in_range32_round32 [simp]: "in_range32 (round32 x)"
  by (auto simp: round32_def)

lemma in_range32_fl_add [simp]: "in_range32 (fl_add x y)"
  by (cases x; cases y) simp_all

lemma fl_mul_one: "in_range32 x \<Longrightarrow> fl_mul x (F32 1) = x"
  by (cases x) (simp_all add: round32_in_range)

lemma fl_mul_zero: "finite32 x \<Longrightarrow> fl_mul x (F32 0) = F32 0"
  using float32_max_pos by (cases x) (simp_all add: round32_def)

lemma fl_add_zero: "in_range32 x \<Longrightarrow> fl_add x (F32 0) = x"
  by (cases x) (simp_all add: round32_in_range)

lemma log_softmax32_in_range:
  "row \<in> set (log_softmax32 x) \<Longrightarrow> y \<in> set row \<Longrightarrow> in_range32 y"
  by (auto simp: log_softmax32_def)

lemma rect_log_softmax32_Linear:
  "rect (min (length Wt) (length bs)) (log_softmax32 (nn_Linear Wt bs x))"
  by (auto simp: rect_def log_softmax32_def log_softmax_def nn_Linear_def)

lemma length_log_softmax32_Linear:
  "length (log_softmax32 (nn_Linear Wt bs x)) = length x"
  by (simp add: log_softmax32_def log_softmax_def nn_Linear_def)

subsection \<open>Selection\<close>

text \<open>
  \<^verbatim>\<open>choose\<close> with one index per row returns, for every row \<open>b\<close> of a matrix with \<open>C\<close>
  columns, the entry at the column \<open>idxs[b] < C\<close>; with a single index it reads that
  column of every row.
\<close>

lemma ebind_InrE:
  assumes "ebind x f = Inr y"
  obtains z where "x = Inr z" "f z = Inr y"
  using assms by (cases x) simp_all

lemma concat_nth_rect:
  "rect C mx \<Longrightarrow> b < length mx \<Longrightarrow> i < C \<Longrightarrow>
   i + b * C < length (concat mx) \<and> concat mx ! (i + b * C) = mx ! b ! i"
proof (induction mx arbitrary: b)
  case Nil
  then show ?case by simp
next
  case (Cons row mx)
  from Cons.prems(1) have row: "length row = C" and r: "rect C mx" by (simp_all add: rect_def)
  show ?case
  proof (cases b)
    case 0
    with row Cons.prems(3) show ?thesis by (simp add: nth_append)
  next
    case (Suc b')
    with Cons.prems have "b' < length mx" by simp
    from Cons.IH [OF r this Cons.prems(3)] row Suc show ?thesis
      by (simp add: nth_append)
  qed
qed

lemma choose_t_rows:
  fixes mx :: "'b list list"
  assumes "(choose_t mx idxs :: 'a error + 'b list) = Inr c" and "length idxs = length mx"
  shows "length c = length mx \<and> (\<forall>b < length mx. c ! b = concat mx ! (idxs ! b + b * size1 mx))"
proof -
  have u: "(unrolled (size0 mx) (size1 mx) idxs :: 'a error + nat list)
             = Inr (map (\<lambda>(b, i). i + b * size1 mx) (enumerate 0 idxs))"
    using assms(2) by (simp add: unrolled_def size0_def)
  from assms(1) have "c = map (\<lambda>u. concat mx ! u) (map (\<lambda>(b, i). i + b * size1 mx) (enumerate 0 idxs))"
    unfolding choose_t_def u by (simp split: if_splits)
  with assms(2) show ?thesis by (simp add: nth_enumerate_eq)
qed

lemma choose_t_nth:
  fixes mx :: "'b list list"
  assumes "(choose_t mx idxs :: 'a error + 'b list) = Inr c" and "length idxs = length mx"
    and "rect C mx" and "b < length mx" and "idxs ! b < C"
  shows "c ! b = mx ! b ! (idxs ! b)"
proof -
  from assms(4) have "mx \<noteq> []" by auto
  with assms(3) have sz: "size1 mx = C" by (rule size1_rect)
  from choose_t_rows [OF assms(1,2)] assms(4) sz
  have "c ! b = concat mx ! (idxs ! b + b * C)" by simp
  with concat_nth_rect [OF assms(3,4,5)] show ?thesis by simp
qed

lemma choose_t_broadcast_example:
  "(choose_t [[1, 2, 3], [4, 5, 6 :: nat]] [1] :: unit error + nat list) = Inr [2, 5]"
  by (simp add: choose_t_def unrolled_def size0_def size1_def upt_rec)

subsection \<open>One step of the decoder loop\<close>

lemma ebind_Inr_right [simp]: "ebind x Inr = x"
  by (cases x) simp_all

lemma length_ne_byte [simp]: "length (ne_byte v row) = length row"
  by (simp add: ne_byte_def)

lemma broadcast_inplace_times:
  assumes "(broadcast_inplace (*) xs ys :: 'a error + nat list) = Inr zs"
  shows "length zs = length xs \<and> (\<forall>b < length xs. xs ! b = 0 \<longrightarrow> zs ! b = 0)"
  using assms by (auto simp: broadcast_inplace_def split: if_splits)

lemma decoder_step_active_entry:
  fixes m :: "'a robustfill"
  assumes "decoder_step L m md Hl ml n tsc k s = Inr s'" "b < length (d_active s)"
  shows "length (d_active s') = length (d_active s) \<and>
         (d_active s ! b = 0 \<longrightarrow> d_active s' ! b = 0)"
proof -
  from assms(1) obtain row where
    "(broadcast_inplace (*) (d_active s) (ne_byte (v_target m) row) :: 'a error + nat list)
       = Inr (d_active s')"
    unfolding decoder_step_def
    by (cases md) (auto elim!: ebind_InrE split: if_splits prod.splits)
  from broadcast_inplace_times [OF this] assms(2) show ?thesis by simp
qed

lemma step_logsoftmax_shape:
  fixes m :: "'a robustfill"
  assumes "step_logsoftmax L m Hl ml n s = Inr lsm" "shapes_ok m" "codec_ok m"
  shows "rect (v_target m + 1) lsm"
    and "row \<in> set lsm \<Longrightarrow> y \<in> set row \<Longrightarrow> in_range32 y"
proof -
  from assms(1) obtain pooled where
    lsm: "lsm = log_softmax32 (nn_Linear (V_weight m) (V_bias m) pooled)"
    unfolding step_logsoftmax_def by (auto elim!: ebind_InrE)
  from assms(2,3) have "min (length (V_weight m)) (length (V_bias m)) = v_target m + 1"
    by (simp add: shapes_ok_def codec_ok_def)
  with rect_log_softmax32_Linear [of "V_weight m" "V_bias m" pooled] lsm
  show "rect (v_target m + 1) lsm" by simp
  show "in_range32 y" if "row \<in> set lsm" "y \<in> set row"
    using that lsm by (auto intro: log_softmax32_in_range)
qed

lemma decoder_step_Score_rows:
  fixes m :: "'a robustfill"
  assumes step: "decoder_step L m Score Hl ml n tsc k s = Inr s'"
    and len: "length (d_score s) = B" "length (d_active s) = B" "length (d_target s ! k) = B"
    and lsm: "step_logsoftmax L m Hl ml n s = Inr lsm" "length lsm = B"
  shows "\<exists>chosen. (choose_t lsm (d_target s ! k) :: 'a error + float32 list) = Inr chosen \<and>
           length chosen = B \<and> d_target s' = d_target s \<and>
           d_active s' = map2 (*) (d_active s) (ne_byte (v_target m) (d_target s ! k)) \<and>
           d_score s' = map2 fl_add (d_score s) (map2 fl_mul chosen (map byte_float (d_active s)))"
proof -
  from step lsm(1) obtain chosen masked where
    ch: "(choose_t lsm (d_target s ! k) :: 'a error + float32 list) = Inr chosen"
    and mk: "(broadcast2 fl_mul chosen (map byte_float (d_active s)) :: 'a error + float32 list)
               = Inr masked"
    and sc: "(broadcast2 fl_add (d_score s) masked :: 'a error + float32 list) = Inr (d_score s')"
    and ac: "(broadcast_inplace (*) (d_active s) (ne_byte (v_target m) (d_target s ! k))
               :: 'a error + nat list) = Inr (d_active s')"
    and tg: "d_target s' = d_target s"
    unfolding decoder_step_def by (auto elim!: ebind_InrE)
  from len(3) lsm(2) have li: "length (d_target s ! k) = length lsm" by simp
  from choose_t_rows [OF ch li] lsm(2) have lc: "length chosen = B" by simp
  from mk lc len(2) have m: "masked = map2 fl_mul chosen (map byte_float (d_active s))"
    by (simp add: broadcast2_def)
  with lc len(2) have lm: "length masked = B" by simp
  from sc lm len(1) have s: "d_score s' = map2 fl_add (d_score s) masked"
    by (simp add: broadcast2_def)
  from ac len(2,3) have a: "d_active s' = map2 (*) (d_active s) (ne_byte (v_target m) (d_target s ! k))"
    by (simp add: broadcast_inplace_def)
  from ch lc tg a s m show ?thesis by simp
qed

lemma decoder_step_Score:
  fixes m :: "'a robustfill"
  assumes step: "decoder_step L m Score Hl ml n tsc k s = Inr s'"
    and len: "length (d_score s) = B" "length (d_active s) = B" "length (d_target s ! k) = B"
    and lsm: "step_logsoftmax L m Hl ml n s = Inr lsm" "length lsm = B"
    and ok: "shapes_ok m" "codec_ok m"
    and b: "b < B" "d_target s ! k ! b \<le> v_target m"
  shows "d_active s' ! b = d_active s ! b * (if d_target s ! k ! b \<noteq> v_target m then 1 else 0)"
    "d_score s' ! b =
       fl_add (d_score s ! b)
         (fl_mul (lsm ! b ! (d_target s ! k ! b)) (byte_float (d_active s ! b)))"
    "in_range32 (lsm ! b ! (d_target s ! k ! b))"
proof -
  from decoder_step_Score_rows [OF step len lsm] obtain chosen where
    ch: "(choose_t lsm (d_target s ! k) :: 'a error + float32 list) = Inr chosen"
    and lc: "length chosen = B"
    and a: "d_active s' = map2 (*) (d_active s) (ne_byte (v_target m) (d_target s ! k))"
    and s: "d_score s' = map2 fl_add (d_score s) (map2 fl_mul chosen (map byte_float (d_active s)))"
    by blast
  from len(3) lsm(2) have li: "length (d_target s ! k) = length lsm" by simp
  from step_logsoftmax_shape(1) [OF lsm(1) ok] have r: "rect (v_target m + 1) lsm" .
  from b lsm(2) have bl: "b < length lsm" by simp
  from b(2) have "d_target s ! k ! b < v_target m + 1" by simp
  from choose_t_nth [OF ch li r bl this]
  have cb: "chosen ! b = lsm ! b ! (d_target s ! k ! b)" .
  from a len(2,3) b(1)
  show "d_active s' ! b = d_active s ! b * (if d_target s ! k ! b \<noteq> v_target m then 1 else 0)"
    by (simp add: ne_byte_def)
  from s lc len(1,2) b(1) cb
  show "d_score s' ! b =
       fl_add (d_score s ! b)
         (fl_mul (lsm ! b ! (d_target s ! k ! b)) (byte_float (d_active s ! b)))"
    by simp
  from r bl have "length (lsm ! b) = v_target m + 1" by (simp add: rect_def)
  with b(2) have "lsm ! b ! (d_target s ! k ! b) \<in> set (lsm ! b)" by simp
  moreover from bl have "lsm ! b \<in> set lsm" by simp
  ultimately show "in_range32 (lsm ! b ! (d_target s ! k ! b))"
    using step_logsoftmax_shape(2) [OF lsm(1) ok] by blast
qed

subsection \<open>The decoder loop\<close>

lemma decoder_state_at_0 [simp]: "decoder_state_at L m md Hl ml n tsc s0 0 = Inr s0"
  by (simp add: decoder_state_at_def)

lemma decoder_state_at_Suc:
  "decoder_state_at L m md Hl ml n tsc s0 (Suc t) =
     ebind (decoder_state_at L m md Hl ml n tsc s0 t) (decoder_step L m md Hl ml n tsc t)"
proof -
  have nil: "for_loop (decoder_step L m md Hl ml n tsc) [] = Inr" by (rule ext) simp
  have "for_loop (decoder_step L m md Hl ml n tsc) [t] = decoder_step L m md Hl ml n tsc t"
    by (rule ext) (simp add: nil)
  then show ?thesis by (simp add: decoder_state_at_def for_loop_append)
qed

lemma decoder_state_at_SucE:
  assumes "decoder_state_at L m md Hl ml n tsc s0 (Suc t) = Inr s'"
  obtains s where "decoder_state_at L m md Hl ml n tsc s0 t = Inr s"
    and "decoder_step L m md Hl ml n tsc t s = Inr s'"
  using assms unfolding decoder_state_at_Suc by (rule ebind_InrE)

lemma decoder_state_at_prefix:
  assumes "decoder_state_at L m md Hl ml n tsc s0 t' = Inr s'" "t \<le> t'"
  shows "\<exists>s. decoder_state_at L m md Hl ml n tsc s0 t = Inr s"
  using assms(2,1)
proof (induction t' arbitrary: s' rule: dec_induct)
  case base
  then show ?case by blast
next
  case (step u)
  from step.prems obtain s where "decoder_state_at L m md Hl ml n tsc s0 u = Inr s"
    by (rule decoder_state_at_SucE)
  with step.IH show ?case by blast
qed

lemma decoder_active_monotone:
  fixes m :: "'a robustfill"
  assumes "t \<le> t'"
    and "decoder_state_at L m md Hl ml n tsc s0 t = Inr s"
    and "decoder_state_at L m md Hl ml n tsc s0 t' = Inr s'"
    and "b < length (d_active s)" and "d_active s ! b = 0"
  shows "length (d_active s') = length (d_active s) \<and> d_active s' ! b = 0"
  using assms(1,3)
proof (induction t' arbitrary: s' rule: dec_induct)
  case base
  with assms(2,5) show ?case by simp
next
  case (step u)
  from step.prems obtain su where su: "decoder_state_at L m md Hl ml n tsc s0 u = Inr su"
    and st: "decoder_step L m md Hl ml n tsc u su = Inr s'"
    by (rule decoder_state_at_SucE)
  from step.IH [OF su] have IH: "length (d_active su) = length (d_active s)" "d_active su ! b = 0"
    by simp_all
  with assms(4) have "b < length (d_active su)" by simp
  from decoder_step_active_entry [OF st this] IH show ?case by simp
qed

lemma decoder_step_logsoftmax:
  fixes m :: "'a robustfill"
  assumes "decoder_state_at L m Score Hl ml n tsc s0 u = Inr su"
    and "decoder_step L m Score Hl ml n tsc u su = Inr s'"
  shows "step_logsoftmax L m Hl ml n su = Inr (logsoftmax_at L m Hl ml n tsc s0 u)"
proof -
  from assms(2) obtain lsm where "step_logsoftmax L m Hl ml n su = Inr lsm"
    unfolding decoder_step_def by (auto elim!: ebind_InrE)
  with assms(1) show ?thesis by (simp add: logsoftmax_at_def)
qed

lemma score_mode_frame:
  fixes m :: "'a robustfill"
  assumes "decoder_state_at L m Score Hl ml n tsc s0 t = Inr s"
    and "decoder_shapes L m Hl ml n tsc s0 B T" and "t \<le> T"
  shows "d_target s = d_target s0 \<and> length (d_score s) = B \<and> length (d_active s) = B"
  using assms(1,3)
proof (induction t arbitrary: s)
  case 0
  with assms(2) show ?case by (simp add: decoder_shapes_def)
next
  case (Suc t)
  from Suc.prems(1) obtain st where st: "decoder_state_at L m Score Hl ml n tsc s0 t = Inr st"
    and step: "decoder_step L m Score Hl ml n tsc t st = Inr s"
    by (rule decoder_state_at_SucE)
  from Suc.prems have "t \<le> T" "t < T" by simp_all
  from Suc.IH [OF st this(1)]
  have IH: "d_target st = d_target s0" "length (d_score st) = B" "length (d_active st) = B"
    by simp_all
  from assms(2) \<open>t < T\<close> IH(1) have sh: "length (d_target st ! t) = B"
    "length (logsoftmax_at L m Hl ml n tsc s0 t) = B"
    by (simp_all add: decoder_shapes_def)
  from decoder_step_Score_rows [OF step IH(2,3) sh(1) decoder_step_logsoftmax [OF st step] sh(2)]
    IH sh(1) show ?case by auto
qed

lemma decoder_step_Score_active:
  fixes m :: "'a robustfill"
  assumes step: "decoder_step L m Score Hl ml n tsc k s = Inr s'"
    and len: "length (d_score s) = B" "length (d_active s) = B" "length (d_target s ! k) = B"
    and lsm: "step_logsoftmax L m Hl ml n s = Inr lsm" "length lsm = B"
    and b: "b < B"
  shows "d_active s' ! b = d_active s ! b * (if d_target s ! k ! b \<noteq> v_target m then 1 else 0)"
proof -
  from decoder_step_Score_rows [OF step len lsm]
  have "d_active s' = map2 (*) (d_active s) (ne_byte (v_target m) (d_target s ! k))" by blast
  with len(2,3) b show ?thesis by (simp add: ne_byte_def)
qed

lemma score_in_range:
  fixes m :: "'a robustfill"
  assumes "decoder_state_at L m Score Hl ml n tsc s0 (Suc t) = Inr s"
    and sh: "decoder_shapes L m Hl ml n tsc s0 B T" and "Suc t \<le> T" and "b < B"
  shows "in_range32 (d_score s ! b)"
proof -
  from assms(1) obtain st where st: "decoder_state_at L m Score Hl ml n tsc s0 t = Inr st"
    and step: "decoder_step L m Score Hl ml n tsc t st = Inr s"
    by (rule decoder_state_at_SucE)
  from assms(3) have t: "t \<le> T" "t < T" by simp_all
  from score_mode_frame [OF st sh t(1)]
  have fr: "d_target st = d_target s0" "length (d_score st) = B" "length (d_active st) = B"
    by simp_all
  from sh t(2) fr(1) have shp: "length (d_target st ! t) = B"
    "length (logsoftmax_at L m Hl ml n tsc s0 t) = B"
    by (simp_all add: decoder_shapes_def)
  from decoder_step_Score_rows [OF step fr(2,3) shp(1) decoder_step_logsoftmax [OF st step] shp(2)]
  obtain chosen where "length chosen = B"
    "d_score s = map2 fl_add (d_score st) (map2 fl_mul chosen (map byte_float (d_active st)))"
    by blast
  with fr(2,3) assms(4) show ?thesis by simp
qed

lemma score_after_eos:
  fixes m :: "'a robustfill"
  assumes run: "decoder_state_at L m Score Hl ml n tsc s0 t' = Inr s'"
    and sh: "decoder_shapes L m Hl ml n tsc s0 B t'"
    and ok: "shapes_ok m" "codec_ok m"
    and kt: "k < t" "t \<le> t'" and b: "b < B"
    and eos: "d_target s0 ! k ! b = v_target m"
    and pad: "\<forall>u. t \<le> u \<and> u < t' \<longrightarrow> d_target s0 ! u ! b \<le> v_target m \<and>
               finite32 (logsoftmax_at L m Hl ml n tsc s0 u ! b ! (d_target s0 ! u ! b))"
  shows "\<exists>s. decoder_state_at L m Score Hl ml n tsc s0 t = Inr s \<and>
             d_active s ! b = 0 \<and> d_score s' ! b = d_score s ! b"
proof -
  let ?at = "decoder_state_at L m Score Hl ml n tsc s0"
  from decoder_state_at_prefix [OF run kt(2)] obtain s where s: "?at t = Inr s" ..
  from kt have k1: "Suc k \<le> t" "Suc k \<le> t'" "k \<le> t'" "k < t'" by simp_all
  from decoder_state_at_prefix [OF run k1(2)] obtain s1 where s1: "?at (Suc k) = Inr s1" ..
  then obtain sk where sk: "?at k = Inr sk" and stepk: "decoder_step L m Score Hl ml n tsc k sk = Inr s1"
    by (rule decoder_state_at_SucE)
  from score_mode_frame [OF sk sh k1(3)]
  have fk: "d_target sk = d_target s0" "length (d_score sk) = B" "length (d_active sk) = B"
    by simp_all
  from sh k1(4) fk(1) have shk: "length (d_target sk ! k) = B"
    "length (logsoftmax_at L m Hl ml n tsc s0 k) = B"
    by (simp_all add: decoder_shapes_def)
  from decoder_step_Score_active [OF stepk fk(2,3) shk(1) decoder_step_logsoftmax [OF sk stepk] shk(2) b]
    fk(1) eos
  have a1: "d_active s1 ! b = 0" by simp
  from score_mode_frame [OF s1 sh k1(2)] b have b1: "b < length (d_active s1)" by simp
  from decoder_active_monotone [OF k1(1) s1 s b1 a1] have az: "d_active s ! b = 0" by simp
  from kt(1) obtain t0 where t0: "t = Suc t0" by (cases t) simp_all
  from s kt(2) have rg: "in_range32 (d_score s ! b)"
    unfolding t0 by (rule score_in_range [OF _ sh _ b])
  have "d_active s' ! b = 0 \<and> d_score s' ! b = d_score s ! b"
    using kt(2) run pad sh
  proof (induction t' arbitrary: s' rule: dec_induct)
    case base
    with s az show ?case by simp
  next
    case (step u)
    from step.prems(1) obtain su where su: "?at u = Inr su"
      and st: "decoder_step L m Score Hl ml n tsc u su = Inr s'"
      by (rule decoder_state_at_SucE)
    from step.prems(3) have shu: "decoder_shapes L m Hl ml n tsc s0 B u"
      by (simp add: decoder_shapes_def)
    from step.prems(2) have padu: "\<forall>v. t \<le> v \<and> v < u \<longrightarrow> d_target s0 ! v ! b \<le> v_target m \<and>
               finite32 (logsoftmax_at L m Hl ml n tsc s0 v ! b ! (d_target s0 ! v ! b))"
      by simp
    from step.IH [OF su padu shu]
    have IH: "d_active su ! b = 0" "d_score su ! b = d_score s ! b" by simp_all
    from score_mode_frame [OF su shu]
    have fu: "d_target su = d_target s0" "length (d_score su) = B" "length (d_active su) = B"
      by simp_all
    from step.prems(3) fu(1) have shp: "length (d_target su ! u) = B"
      "length (logsoftmax_at L m Hl ml n tsc s0 u) = B"
      by (simp_all add: decoder_shapes_def)
    from step.prems(2) step.hyps(1) fu(1)
    have pu: "d_target su ! u ! b \<le> v_target m"
      "finite32 (logsoftmax_at L m Hl ml n tsc s0 u ! b ! (d_target su ! u ! b))"
      by simp_all
    note lu = decoder_step_logsoftmax [OF su st]
    from decoder_step_Score_active [OF st fu(2,3) shp(1) lu shp(2) b] IH(1)
    have 1: "d_active s' ! b = 0" by simp
    from decoder_step_Score(2) [OF st fu(2,3) shp(1) lu shp(2) ok b pu(1)] IH
    have "d_score s' ! b =
            fl_add (d_score s ! b)
              (fl_mul (logsoftmax_at L m Hl ml n tsc s0 u ! b ! (d_target su ! u ! b)) (F32 0))"
      by (simp add: byte_float_def)
    with pu(2) rg have "d_score s' ! b = d_score s ! b"
      by (simp add: fl_mul_zero fl_add_zero)
    with 1 show ?case by simp
  qed
  with s az show ?thesis by blast
qed

lemma score_before_eos:
  fixes m :: "'a robustfill"
  assumes init: "d_score s0 = replicate B (F32 0)" "d_active s0 = replicate B 1" "b < B"
    and sh: "decoder_shapes L m Hl ml n tsc s0 B T"
    and ok: "shapes_ok m" "codec_ok m"
    and first: "\<forall>k < e. d_target s0 ! k ! b < v_target m"
    and eos: "d_target s0 ! e ! b = v_target m"
    and "t \<le> e + 1" and "e < T"
    and "decoder_state_at L m Score Hl ml n tsc s0 t = Inr s"
  shows "d_score s ! b =
           foldl fl_add (F32 0)
             (map (\<lambda>k. logsoftmax_at L m Hl ml n tsc s0 k ! b ! (d_target s0 ! k ! b)) [0..<t]) \<and>
         d_active s ! b = (if t \<le> e then 1 else 0)"
  using assms(9,11)
proof (induction t arbitrary: s)
  case 0
  with init show ?case by simp
next
  case (Suc t)
  let ?at = "decoder_state_at L m Score Hl ml n tsc s0"
  let ?sel = "\<lambda>k. logsoftmax_at L m Hl ml n tsc s0 k ! b ! (d_target s0 ! k ! b)"
  from Suc.prems(2) obtain st where st: "?at t = Inr st"
    and step: "decoder_step L m Score Hl ml n tsc t st = Inr s"
    by (rule decoder_state_at_SucE)
  from Suc.prems assms(10) have t: "t \<le> e" "t \<le> T" "t < T" by simp_all
  from Suc.IH [OF _ st] t
  have IH: "d_score st ! b = foldl fl_add (F32 0) (map ?sel [0..<t])" "d_active st ! b = 1"
    by simp_all
  from score_mode_frame [OF st sh t(2)]
  have fr: "d_target st = d_target s0" "length (d_score st) = B" "length (d_active st) = B"
    by simp_all
  from sh t(3) fr(1) have shp: "length (d_target st ! t) = B"
    "length (logsoftmax_at L m Hl ml n tsc s0 t) = B"
    by (simp_all add: decoder_shapes_def)
  have id: "d_target st ! t ! b \<le> v_target m"
  proof (cases "t = e")
    case True
    with eos fr(1) show ?thesis by simp
  next
    case False
    with t(1) have "t < e" by simp
    with first have "d_target s0 ! t ! b < v_target m" by simp
    with fr(1) show ?thesis by simp
  qed
  note lu = decoder_step_logsoftmax [OF st step]
  note stp = decoder_step_Score [OF step fr(2,3) shp(1) lu shp(2) ok init(3) id]
  from stp(2,3) IH fr(1)
  have 1: "d_score s ! b = foldl fl_add (F32 0) (map ?sel [0..<Suc t])"
    by (simp add: byte_float_def fl_mul_one)
  have "d_target s0 ! t ! b \<noteq> v_target m \<longleftrightarrow> Suc t \<le> e"
  proof (cases "t = e")
    case True
    with eos show ?thesis by simp
  next
    case False
    with t(1) have "t < e" by simp
    with first have "d_target s0 ! t ! b < v_target m" by simp
    with \<open>t < e\<close> show ?thesis by simp
  qed
  with stp(1) IH(2) fr(1) have 2: "d_active s ! b = (if Suc t \<le> e then 1 else 0)" by simp
  from 1 2 show ?case by simp
qed

subsection \<open>The loop inside the forward pass\<close>

text \<open>
  In score mode \<^verbatim>\<open>_run\<close> returns the target and the score of the decoder loop over the
  rows of the target, started with the score 0 and the active flag 1 for every batch
  element.
\<close>

lemma run_shapes_target:
  "run_shapes m inputs target = Inr (n, Ls, T, B) \<Longrightarrow>
   T = (case target of Some t \<Rightarrow> size0 t | None \<Rightarrow> 10)"
  unfolding run_shapes_def by (auto elim!: ebind_InrE)

lemma run_score_is_decoder_loop:
  fixes m :: "'a robustfill"
  assumes "run L m rng (Tensors ts) (Some target) Score = Inr (tg, sc, rng')"
  shows "\<exists>Hl ml n tsc emb B sT.
           decoder_state_at L m Score Hl ml n tsc (decoder_start L target emb n B rng) (size0 target)
             = Inr sT \<and>
           tg = d_target sT \<and> sc = d_score sT"
proof -
  from assms obtain n Ls T B Hl ml tsc emb sT
    where sh: "run_shapes m (Tensors ts) (Some target) = Inr (n, Ls, T, B)"
      and loop: "for_loop (decoder_step L m Score Hl ml n tsc) [0..<T]
                   (decoder_start L target emb n B rng) = Inr sT"
      and res: "tg = d_target sT" "sc = d_score sT"
    unfolding run_def by (auto elim!: ebind_InrE split: prod.splits)
  from run_shapes_target [OF sh] have "T = size0 target" by simp
  with loop res show ?thesis unfolding decoder_state_at_def by blast
qed

subsection \<open>Bounds on log-probabilities\<close>

lemma sum_list_exp_ge:
  fixes row :: "real list"
  assumes "h \<in> set row"
  shows "exp h \<le> sum_list (map exp row)"
  using assms
proof (induction row)
  case Nil
  then show ?case by simp
next
  case (Cons z row)
  have pos: "0 \<le> sum_list (map exp row)" by (rule sum_list_nonneg) auto
  show ?case
  proof (cases "h = z")
    case True
    from pos have "exp z \<le> exp z + sum_list (map exp row)" by linarith
    with True show ?thesis by simp
  next
    case False
    with Cons have "exp h \<le> sum_list (map exp row)" by simp
    with exp_ge_zero [of z] have "exp h \<le> exp z + sum_list (map exp row)" by linarith
    then show ?thesis by simp
  qed
qed

lemma sum_list_exp_le:
  fixes row :: "real list"
  assumes "\<forall>z \<in> set row. z \<le> h"
  shows "sum_list (map exp row) \<le> real (length row) * exp h"
  using assms
proof (induction row)
  case Nil
  then show ?case by simp
next
  case (Cons z row)
  then have "exp z \<le> exp h" "sum_list (map exp row) \<le> real (length row) * exp h" by simp_all
  then have "exp z + sum_list (map exp row) \<le> exp h + real (length row) * exp h" by linarith
  then show ?case by (simp add: algebra_simps)
qed

lemma log_softmax_entry_bounds:
  fixes row :: "real list"
  assumes "h \<in> set row" and "\<forall>z \<in> set row. z \<le> h"
  shows "y - h - real (length row) \<le> y - ln (sum_list (map exp row))"
    and "y - ln (sum_list (map exp row)) \<le> y - h"
proof -
  let ?S = "sum_list (map exp row)"
  from sum_list_exp_ge [OF assms(1)] have ge: "exp h \<le> ?S" .
  from ge exp_gt_zero [of h] have pos: "0 < ?S" by linarith
  from assms(1) have n: "0 < real (length row)" by (cases row) simp_all
  from ge have "ln (exp h) \<le> ln ?S" by (subst ln_le_cancel_iff) (simp_all add: pos)
  then have lo: "h \<le> ln ?S" by simp
  from sum_list_exp_le [OF assms(2)] pos
  have "ln ?S \<le> ln (real (length row) * exp h)" by (subst ln_le_cancel_iff) (simp_all add: n)
  also have "\<dots> = ln (real (length row)) + h" using n by (simp add: ln_mult)
  also have "\<dots> \<le> real (length row) + h" using ln_le_minus_one [OF n] by simp
  finally have hi: "ln ?S \<le> real (length row) + h" .
  from hi show "y - h - real (length row) \<le> y - ln ?S" by simp
  from lo show "y - ln ?S \<le> y - h" by simp
qed

lemma finite32_round32: "finite32 (round32 x) \<longleftrightarrow> \<bar>x\<bar> \<le> float32_max"
  by (auto simp: round32_def)

subsection \<open>The loop on the concrete models\<close>

lemma decoder_start_simps [simp]:
  "d_target (decoder_start L target emb n B rng) = target"
  "d_active (decoder_start L target emb n B rng) = replicate B 1"
  "d_score (decoder_start L target emb n B rng) = replicate B (F32 0)"
  by (simp_all add: decoder_start_def)

lemma all_less_3: "(\<forall>u < 3. P u) \<longleftrightarrow> P 0 \<and> P 1 \<and> P (2 :: nat)"
  by (auto simp: numeral_3_eq_3 less_Suc_eq numeral_2_eq_2)

lemmas eval_defs = decoder_state_at_def s00_def decoder_start_def L0_def H0_def mask0_def
  target0_def tsc0_def decoder_get_init_def
  decoder_step_def step_logsoftmax_def pooled_features_def decoder_FC_def example_features_def
  attend_def attend_weights_def cat_dim1_def softmax_dim0_def size1_def column_def
  m0_def init_def refreshVocabularyIndex_def nn_Linear_def log_softmax_def log_softmax32_def
  choose_t_def unrolled_def broadcast2_def broadcast_inplace_def
  size0_def ne_byte_def

lemma decoder_run_s00:
  "\<exists>s1 s2 s3. decoder_state_at L0 m0 Score H0 mask0 1 tsc0 s00 1 = Inr s1 \<and>
      decoder_state_at L0 m0 Score H0 mask0 1 tsc0 s00 2 = Inr s2 \<and>
      decoder_state_at L0 m0 Score H0 mask0 1 tsc0 s00 3 = Inr s3 \<and>
      d_active s1 = [1] \<and> d_active s2 = [0] \<and> d_active s3 = [0]"
  by (simp add: eval_defs numeral_2_eq_2 numeral_3_eq_3)

lemma logsoftmax_at_s00:
  "\<forall>u < 3. logsoftmax_at L0 m0 H0 mask0 1 tsc0 s00 u = log_softmax32 [[7, 8, 9]]"
  unfolding all_less_3
  by (simp add: logsoftmax_at_def eval_defs numeral_2_eq_2)

lemma log_softmax32_nth:
  "b < length x \<Longrightarrow> i < length (x ! b) \<Longrightarrow>
   log_softmax32 x ! b ! i = round32 (x ! b ! i - ln (sum_list (map exp (x ! b))))"
  by (simp add: log_softmax32_def log_softmax_def)

lemma lsm0_finite:
  assumes "i < 3"
  shows "finite32 (log_softmax32 [[7, 8, 9]] ! 0 ! i)"
proof -
  let ?row = "[7, 8, 9 :: real]"
  have h: "9 \<in> set ?row" "\<forall>z \<in> set ?row. z \<le> 9" by simp_all
  from assms have y: "?row ! i \<in> set ?row" by (intro nth_mem) simp
  then have "7 \<le> ?row ! i" "?row ! i \<le> 9" by auto
  with log_softmax_entry_bounds [OF h, of "?row ! i"]
  have "\<bar>?row ! i - ln (sum_list (map exp ?row))\<bar> \<le> float32_max"
    by (simp add: float32_max_def)
  then have "finite32 (round32 (?row ! i - ln (sum_list (map exp ?row))))"
    by (simp only: finite32_round32)
  moreover from assms
  have "log_softmax32 [?row] ! 0 ! i = round32 ([?row] ! 0 ! i - ln (sum_list (map exp ([?row] ! 0))))"
    by (intro log_softmax32_nth) simp_all
  ultimately show ?thesis by simp
qed

lemma lsm_wide:
  "\<exists>x y. \<bar>x\<bar> \<le> float32_max \<and>
     log_softmax32 [[300000000000000000000000000000000000000, 0,
                     - 300000000000000000000000000000000000000]] = [[F32 x, F32 y, MInf]]"
proof -
  let ?A = "300000000000000000000000000000000000000 :: real"
  let ?row = "[?A, 0, - ?A]"
  let ?S = "sum_list (map exp ?row)"
  have h: "?A \<in> set ?row" "\<forall>z \<in> set ?row. z \<le> ?A" by simp_all
  note bd = log_softmax_entry_bounds [OF h]
  from bd [of ?A] have x: "\<bar>?A - ln ?S\<bar> \<le> float32_max"
    by (simp add: float32_max_def)
  from bd [of 0] have y: "\<bar>0 - ln ?S\<bar> \<le> float32_max"
    by (simp add: float32_max_def)
  from bd(2) [of "- ?A"] have z: "- ?A - ln ?S < - float32_max"
    by (simp add: float32_max_def)
  have "log_softmax32 [?row] =
          [[round32 (?A - ln ?S), round32 (0 - ln ?S), round32 (- ?A - ln ?S)]]"
    by (simp add: log_softmax32_def log_softmax_def)
  also from z have "round32 (- ?A - ln ?S) = MInf"
    by (simp only: round32_def) (simp add: float32_max_def)
  also note round32_in_range [OF x]
  also note round32_in_range [OF y]
  finally show ?thesis using x by blast
qed

lemmas eval_wide = decoder_state_at_def s_pad_def decoder_start_def L0_def H0_def mask0_def
  target_pad_def tsc_pad_def decoder_get_init_def
  decoder_step_def step_logsoftmax_def pooled_features_def decoder_FC_def example_features_def
  attend_def attend_weights_def cat_dim1_def softmax_dim0_def size1_def column_def
  m_wide_def init_def refreshVocabularyIndex_def nn_Linear_def
  choose_t_def unrolled_def broadcast2_def broadcast_inplace_def byte_float_def
  size0_def ne_byte_def

lemma decoder_run_s_pad:
  "map_sum id d_active (decoder_state_at L0 m_wide Score H0 mask0 1 tsc_pad s_pad 2) = Inr [0] \<and>
   map_sum id d_score (decoder_state_at L0 m_wide Score H0 mask0 1 tsc_pad s_pad 2) = Inr [MInf] \<and>
   map_sum id d_score (decoder_state_at L0 m_wide Score H0 mask0 1 tsc_pad s_pad 3) = Inr [NaN]"
proof -
  from lsm_wide obtain x y where x: "\<bar>x\<bar> \<le> float32_max"
    and l: "log_softmax32 [[300000000000000000000000000000000000000, 0,
                     - 300000000000000000000000000000000000000]] = [[F32 x, F32 y, MInf]]"
    by blast
  note r = round32_in_range [OF x]
  show ?thesis
    by (simp add: eval_wide numeral_2_eq_2 numeral_3_eq_3 l r)
qed

lemma m0_ok: "shapes_ok m0" "codec_ok m0" "v_target m0 = 2"
  by (simp_all add: shapes_ok_def codec_ok_def m0_def init_def refreshVocabularyIndex_def rect_def)

lemma decoder_shapes_s00: "decoder_shapes L0 m0 H0 mask0 1 tsc0 s00 1 3"
  unfolding decoder_shapes_def all_less_3
  using logsoftmax_at_s00 [unfolded all_less_3]
  by (simp add: s00_def target0_def log_softmax32_def log_softmax_def)

lemma logsoftmax_at_s_pad:
  "\<forall>u < 3. logsoftmax_at L0 m_wide H0 mask0 1 tsc_pad s_pad u =
     log_softmax32 [[300000000000000000000000000000000000000, 0,
                     - 300000000000000000000000000000000000000]]"
proof -
  from lsm_wide obtain x y where x: "\<bar>x\<bar> \<le> float32_max"
    and l: "log_softmax32 [[300000000000000000000000000000000000000, 0,
                     - 300000000000000000000000000000000000000]] = [[F32 x, F32 y, MInf]]"
    by blast
  note r = round32_in_range [OF x]
  show ?thesis
    unfolding all_less_3
    by (simp add: logsoftmax_at_def eval_wide numeral_2_eq_2 l r)
qed

subsection \<open>The running score\<close>

text \<open>
  Claim C3 (masked score accumulation), as the code has it. The claim as written does not
  hold: the mask is the product \<^verbatim>\<open>choose(logsoftmax, target[k, :]) * active.float()\<close>,
  and \<open>-inf * 0\<close> is NaN. With the logits \<open>3e38, 0, -3e38\<close> the log-probability of the
  end-of-sequence id is \<open>-inf\<close>; for the target \<open>a\<close>, end of sequence, end of sequence,
  the active flag is 0 and the score is \<open>-inf\<close> after two time steps, and the score is
  NaN after the third.
\<close>

theorem score_changes_after_eos_example:
  "d_target s_pad ! 1 ! 0 = v_target m_wide \<and>
   map_sum id d_active (decoder_state_at L0 m_wide Score H0 mask0 1 tsc_pad s_pad 2) = Inr [0] \<and>
   map_sum id d_score (decoder_state_at L0 m_wide Score H0 mask0 1 tsc_pad s_pad 2) = Inr [MInf] \<and>
   map_sum id d_score (decoder_state_at L0 m_wide Score H0 mask0 1 tsc_pad s_pad 3) = Inr [NaN]"
  using decoder_run_s_pad
  by (simp add: s_pad_def target_pad_def m_wide_def init_def refreshVocabularyIndex_def)

text \<open>
  Claim C3, amended. In score mode, for a loop whose score, active flags, target rows and
  log-softmax matrices all have one entry (or row) per batch element: if the target
  token of the batch element \<open>b\<close> at time step \<open>k\<close> is the end-of-sequence id, and at
  every time step from \<open>t > k\<close> on the target holds an id of the target vocabulary (or
  the end-of-sequence id) whose log-probability is finite, then the decoder's active flag
  of \<open>b\<close> is 0 after \<open>t\<close> steps and the running score of \<open>b\<close> after any \<open>t' \<ge> t\<close> steps
  is the one after \<open>t\<close> steps, whichever of these ids the target holds after position
  \<open>k\<close>.
\<close>

theorem score_unchanged_after_eos:
  fixes m :: "'a robustfill"
  assumes "decoder_state_at L m Score Hl ml n tsc s0 t' = Inr s'"
    and "decoder_shapes L m Hl ml n tsc s0 B t'"
    and "shapes_ok m" and "codec_ok m"
    and "k < t" and "t \<le> t'" and "b < B"
    and "d_target s0 ! k ! b = v_target m"
    and "\<forall>u. t \<le> u \<and> u < t' \<longrightarrow> d_target s0 ! u ! b \<le> v_target m \<and>
           finite32 (logsoftmax_at L m Hl ml n tsc s0 u ! b ! (d_target s0 ! u ! b))"
  shows "\<exists>s. decoder_state_at L m Score Hl ml n tsc s0 t = Inr s \<and>
             d_active s ! b = 0 \<and> d_score s' ! b = d_score s ! b"
  using assms by (rule score_after_eos)

theorem score_unchanged_after_eos_witness:
  "\<exists>s2 s3. decoder_state_at L0 m0 Score H0 mask0 1 tsc0 s00 2 = Inr s2 \<and>
      decoder_state_at L0 m0 Score H0 mask0 1 tsc0 s00 3 = Inr s3 \<and>
      d_active s2 ! 0 = 0 \<and> d_score s3 ! 0 = d_score s2 ! 0"
proof -
  from decoder_run_s00 obtain s3 where s3: "decoder_state_at L0 m0 Score H0 mask0 1 tsc0 s00 3 = Inr s3"
    by blast
  have eos: "d_target s00 ! 1 ! 0 = v_target m0"
    by (simp add: s00_def target0_def m0_ok)
  have pad: "\<forall>u. 2 \<le> u \<and> u < 3 \<longrightarrow> d_target s00 ! u ! 0 \<le> v_target m0 \<and>
           finite32 (logsoftmax_at L0 m0 H0 mask0 1 tsc0 s00 u ! 0 ! (d_target s00 ! u ! 0))"
  proof (intro allI impI)
    fix u :: nat
    assume "2 \<le> u \<and> u < 3"
    then have u: "u = 2" by simp
    have "d_target s00 ! 2 ! 0 = 1" by (simp add: s00_def target0_def)
    moreover have "logsoftmax_at L0 m0 H0 mask0 1 tsc0 s00 2 = log_softmax32 [[7, 8, 9]]"
      using logsoftmax_at_s00 by simp
    ultimately show "d_target s00 ! u ! 0 \<le> v_target m0 \<and>
           finite32 (logsoftmax_at L0 m0 H0 mask0 1 tsc0 s00 u ! 0 ! (d_target s00 ! u ! 0))"
      unfolding u using lsm0_finite [of 1] by (simp add: m0_ok)
  qed
  have "(1::nat) < 2" "(2::nat) \<le> 3" "(0::nat) < 1" by simp_all
  from score_unchanged_after_eos [OF s3 decoder_shapes_s00 m0_ok(1,2) this eos pad] s3
  show ?thesis by blast
qed

text \<open>
  Claim C10 (what the score sums), as the code has it. The claim as written does not
  hold: a time step after the first end-of-sequence id adds the selected log-probability
  times 0, which is NaN when that log-probability is \<open>-inf\<close>. With the logits
  \<open>3e38, 0, -3e38\<close> and the target \<open>a\<close>, end of sequence, end of sequence, the first
  end-of-sequence id is at position 1, the float32 sum of the selected log-probabilities
  of the time steps 0 and 1 is \<open>-inf\<close>, and the final score is NaN.
\<close>

theorem score_is_not_sum_example:
  "d_target s_pad ! 0 ! 0 \<noteq> v_target m_wide \<and> d_target s_pad ! 1 ! 0 = v_target m_wide \<and>
   map_sum id d_score (decoder_state_at L0 m_wide Score H0 mask0 1 tsc_pad s_pad 3) = Inr [NaN] \<and>
   fl_add (fl_add (F32 0)
             (logsoftmax_at L0 m_wide H0 mask0 1 tsc_pad s_pad 0 ! 0 ! (d_target s_pad ! 0 ! 0)))
     (logsoftmax_at L0 m_wide H0 mask0 1 tsc_pad s_pad 1 ! 0 ! (d_target s_pad ! 1 ! 0)) = MInf"
proof -
  from lsm_wide obtain x y where x: "\<bar>x\<bar> \<le> float32_max"
    and l: "log_softmax32 [[300000000000000000000000000000000000000, 0,
                     - 300000000000000000000000000000000000000]] = [[F32 x, F32 y, MInf]]"
    by blast
  from logsoftmax_at_s_pad [unfolded all_less_3] l
  have "logsoftmax_at L0 m_wide H0 mask0 1 tsc_pad s_pad 0 = [[F32 x, F32 y, MInf]]"
    "logsoftmax_at L0 m_wide H0 mask0 1 tsc_pad s_pad 1 = [[F32 x, F32 y, MInf]]"
    by simp_all
  with decoder_run_s_pad round32_in_range [OF x] show ?thesis
    by (simp add: s_pad_def target_pad_def m_wide_def init_def refreshVocabularyIndex_def
        numeral_2_eq_2)
qed

text \<open>
  Claim C10, amended. In score mode, from the start of the decoder loop (score 0 and
  active flag 1 for every batch element), for a loop whose target rows and log-softmax
  matrices have one entry (or row) per batch element: if the target column of the batch
  element \<open>b\<close> holds ids of the target vocabulary before its first end-of-sequence id at
  position \<open>e\<close>, the loop runs its \<open>T > e\<close> time steps, and at every time step after
  \<open>e\<close> the target holds an id whose log-probability is finite, then the final score of
  \<open>b\<close> is the float32 sum, from 0 and in the order of the time steps \<open>0\<close> to \<open>e\<close>, \<open>e\<close>
  included, of the entry of the log-softmax matrix of the step in row \<open>b\<close> and in the
  column of the target id; the later time steps add nothing.
\<close>

theorem score_is_sum_up_to_first_eos:
  fixes m :: "'a robustfill"
  assumes "decoder_state_at L m Score Hl ml n tsc s0 T = Inr sT"
    and "d_score s0 = replicate B (F32 0)" and "d_active s0 = replicate B 1"
    and "decoder_shapes L m Hl ml n tsc s0 B T"
    and "shapes_ok m" and "codec_ok m"
    and "b < B" and "e < T"
    and "\<forall>k < e. d_target s0 ! k ! b < v_target m"
    and "d_target s0 ! e ! b = v_target m"
    and "\<forall>u. e < u \<and> u < T \<longrightarrow> d_target s0 ! u ! b \<le> v_target m \<and>
           finite32 (logsoftmax_at L m Hl ml n tsc s0 u ! b ! (d_target s0 ! u ! b))"
  shows "d_score sT ! b =
           foldl fl_add (F32 0)
             (map (\<lambda>k. logsoftmax_at L m Hl ml n tsc s0 k ! b ! (d_target s0 ! k ! b))
                [0..<Suc e])"
proof -
  let ?at = "decoder_state_at L m Score Hl ml n tsc s0"
  from assms(8) have le: "Suc e \<le> T" by simp
  from assms(11) have pad: "\<forall>u. Suc e \<le> u \<and> u < T \<longrightarrow> d_target s0 ! u ! b \<le> v_target m \<and>
           finite32 (logsoftmax_at L m Hl ml n tsc s0 u ! b ! (d_target s0 ! u ! b))"
    by (simp add: Suc_le_eq)
  from score_after_eos [OF assms(1,4,5,6) _ le assms(7,10) pad]
  obtain s1 where s1: "?at (Suc e) = Inr s1" and eq: "d_score sT ! b = d_score s1 ! b"
    by blast
  from score_before_eos [OF assms(2,3,7,4,5,6,9,10) _ assms(8) s1]
  have "d_score s1 ! b =
          foldl fl_add (F32 0)
            (map (\<lambda>k. logsoftmax_at L m Hl ml n tsc s0 k ! b ! (d_target s0 ! k ! b)) [0..<Suc e])"
    by simp
  with eq show ?thesis by simp
qed

theorem score_is_sum_up_to_first_eos_witness:
  "\<exists>sT. decoder_state_at L0 m0 Score H0 mask0 1 tsc0 s00 3 = Inr sT \<and>
      d_score sT ! 0 =
        foldl fl_add (F32 0)
          (map (\<lambda>k. logsoftmax_at L0 m0 H0 mask0 1 tsc0 s00 k ! 0 ! (d_target s00 ! k ! 0))
             [0..<Suc 1])"
proof -
  from decoder_run_s00 obtain sT where sT: "decoder_state_at L0 m0 Score H0 mask0 1 tsc0 s00 3 = Inr sT"
    by blast
  have init: "d_score s00 = replicate 1 (F32 0)" "d_active s00 = replicate 1 1"
    by (simp_all add: s00_def)
  have eos: "d_target s00 ! 1 ! 0 = v_target m0"
    by (simp add: s00_def target0_def m0_ok)
  have first: "\<forall>k < 1. d_target s00 ! k ! 0 < v_target m0"
    by (simp add: s00_def target0_def m0_ok)
  have pad: "\<forall>u. 1 < u \<and> u < 3 \<longrightarrow> d_target s00 ! u ! 0 \<le> v_target m0 \<and>
           finite32 (logsoftmax_at L0 m0 H0 mask0 1 tsc0 s00 u ! 0 ! (d_target s00 ! u ! 0))"
  proof (intro allI impI)
    fix u :: nat
    assume "1 < u \<and> u < 3"
    then have u: "u = 2" by simp
    have "d_target s00 ! 2 ! 0 = 1" by (simp add: s00_def target0_def)
    moreover have "logsoftmax_at L0 m0 H0 mask0 1 tsc0 s00 2 = log_softmax32 [[7, 8, 9]]"
      using logsoftmax_at_s00 by simp
    ultimately show "d_target s00 ! u ! 0 \<le> v_target m0 \<and>
           finite32 (logsoftmax_at L0 m0 H0 mask0 1 tsc0 s00 u ! 0 ! (d_target s00 ! u ! 0))"
      unfolding u using lsm0_finite [of 1] by (simp add: m0_ok)
  qed
  have "(0::nat) < 1" "(1::nat) < 3" by simp_all
  from score_is_sum_up_to_first_eos
    [OF sT init decoder_shapes_s00 m0_ok(1,2) this first eos pad] sT
  show ?thesis by blast
qed

text \<open>
  Claim C5 (active masks). For the mask \<^verbatim>\<open>active\<close> that the loop of any encoder builds for
  an input tensor with \<open>B\<close> columns, and a batch element \<open>b < B\<close>: position 0 is active;
  position \<open>k + 1\<close> is active exactly when position \<open>k\<close> is active and the token read at
  \<open>k\<close> is not the encoder's end-of-sequence id \<open>v\<close>; and a position after an inactive
  one is inactive. The decoder's flag of a batch element, in either mode, stays 0 at every
  later time step once it is 0.
\<close>

theorem active_mask_monotone:
  fixes inp :: tensor2 and m :: "'a robustfill"
  assumes "rect B inp" and "b < B"
  shows
    "(0 < size0 inp \<longrightarrow> e_active (encoder_loop cell i att v inp scat B st0) ! 0 ! b = 1) \<and>
     (\<forall>k. k + 1 < size0 inp \<longrightarrow>
        (e_active (encoder_loop cell i att v inp scat B st0) ! (k + 1) ! b = 1 \<longleftrightarrow>
         e_active (encoder_loop cell i att v inp scat B st0) ! k ! b = 1 \<and> inp ! k ! b \<noteq> v)) \<and>
     (\<forall>k k'. k \<le> k' \<and> k' < size0 inp \<and>
        e_active (encoder_loop cell i att v inp scat B st0) ! k ! b \<noteq> 1 \<longrightarrow>
        e_active (encoder_loop cell i att v inp scat B st0) ! k' ! b \<noteq> 1) \<and>
     (\<forall>t t' s s'. t \<le> t' \<and>
        decoder_state_at L m md Hl ml n tsc s0 t = Inr s \<and>
        decoder_state_at L m md Hl ml n tsc s0 t' = Inr s' \<and>
        b' < length (d_active s) \<and> d_active s ! b' = 0 \<longrightarrow>
        d_active s' ! b' = 0)"
proof -
  let ?A = "e_active (encoder_loop cell i att v inp scat B st0)"
  have first: "?A ! 0 ! b = 1" if "0 < size0 inp"
    using that encoder_loop_active(2) [where inp = inp] assms(2) by (simp add: size0_def)
  have rec: "?A ! (k + 1) ! b = 1 \<longleftrightarrow> ?A ! k ! b = 1 \<and> inp ! k ! b \<noteq> v" if "k + 1 < size0 inp" for k
  proof -
    from that have k: "k + 1 < length inp" by (simp add: size0_def)
    from encoder_active_entries(2) [OF assms, where k = k] k
    have "?A ! (k + 1) ! b = ?A ! k ! b * (if inp ! k ! b \<noteq> v then 1 else 0)" by simp
    then show ?thesis by simp
  qed
  have mono: "?A ! k' ! b \<noteq> 1" if "k \<le> k'" "k' < size0 inp" "?A ! k ! b \<noteq> 1" for k k'
  proof -
    from that have k: "k < length inp" "k' < length inp" by (simp_all add: size0_def)
    from encoder_active_entries(1) [OF assms, where k = k and cell = cell and i = i and att = att
        and v = v and scat = scat and ?st0.0 = st0] k(1) that(3)
    have "?A ! k ! b = 0" by auto
    from encoder_active_monotone [OF assms that(1) k(2) this] show ?thesis by simp
  qed
  have dec: "d_active s' ! b' = 0"
    if "t \<le> t'" "decoder_state_at L m md Hl ml n tsc s0 t = Inr s"
      "decoder_state_at L m md Hl ml n tsc s0 t' = Inr s'"
      "b' < length (d_active s)" "d_active s ! b' = 0" for t t' s s'
    using decoder_active_monotone [OF that] by simp
  from first rec mono dec show ?thesis by blast
qed

lemma encoder_loop_example:
  "e_active (encoder_loop (encoder_cells L0 0) 0 (\<lambda>h. h) 2 [[0], [2], [2]] [] 1 (GRU_state [[0]]))
     = [[1], [1], [0]]"
  by (simp add: encoder_loop_def encoder_step_def size0_def ne_byte_def numeral_3_eq_3 L0_def Let_def)

theorem active_mask_monotone_witness:
  "e_active (encoder_loop (encoder_cells L0 0) 0 (\<lambda>h. h) 2 [[0], [2], [2]] [] 1 (GRU_state [[0]])) ! 0 ! 0 = 1 \<and>
   e_active (encoder_loop (encoder_cells L0 0) 0 (\<lambda>h. h) 2 [[0], [2], [2]] [] 1 (GRU_state [[0]])) ! 1 ! 0 = 1 \<and>
   e_active (encoder_loop (encoder_cells L0 0) 0 (\<lambda>h. h) 2 [[0], [2], [2]] [] 1 (GRU_state [[0]])) ! 2 ! 0 \<noteq> 1 \<and>
   (\<exists>s2 s3. decoder_state_at L0 m0 Score H0 mask0 1 tsc0 s00 2 = Inr s2 \<and>
      decoder_state_at L0 m0 Score H0 mask0 1 tsc0 s00 3 = Inr s3 \<and>
      d_active s2 ! 0 = 0 \<and> d_active s3 ! 0 = 0)"
proof -
  let ?inp = "[[0], [2], [2]] :: tensor2"
  let ?A = "e_active (encoder_loop (encoder_cells L0 0) 0 (\<lambda>h. h) 2 ?inp [] 1 (GRU_state [[0]]))"
  from decoder_run_s00 obtain s2 s3 where s: "decoder_state_at L0 m0 Score H0 mask0 1 tsc0 s00 2 = Inr s2"
    "decoder_state_at L0 m0 Score H0 mask0 1 tsc0 s00 3 = Inr s3" "d_active s2 = [0]"
    by blast
  have r: "rect 1 ?inp" by (simp add: rect_def)
  have sz: "size0 ?inp = 3" by (simp add: size0_def)
  have b: "(0::nat) < 1" by simp
  note t = active_mask_monotone [OF r b, where cell = "encoder_cells L0 0" and i = 0
      and att = "\<lambda>h. h" and v = 2 and scat = "[]" and ?st0.0 = "GRU_state [[0]]"
      and L = L0 and m = m0 and md = Score and Hl = H0 and ml = mask0 and n = 1 and tsc = tsc0
      and ?s0.0 = s00 and b' = 0, simplified sz]
  from t have a0: "?A ! 0 ! 0 = 1" by simp
  from t have "0 + 1 < (3::nat) \<longrightarrow> (?A ! (0 + 1) ! 0 = 1 \<longleftrightarrow> ?A ! 0 ! 0 = 1 \<and> ?inp ! 0 ! 0 \<noteq> 2)"
    by blast
  with a0 have a1: "?A ! 1 ! 0 = 1" by simp
  from t have "1 + 1 < (3::nat) \<longrightarrow> (?A ! (1 + 1) ! 0 = 1 \<longleftrightarrow> ?A ! 1 ! 0 = 1 \<and> ?inp ! 1 ! 0 \<noteq> 2)"
    by blast
  then have a2: "?A ! 2 ! 0 \<noteq> 1" by (simp add: numeral_2_eq_2)
  from t have "(2::nat) \<le> 3 \<and> decoder_state_at L0 m0 Score H0 mask0 1 tsc0 s00 2 = Inr s2 \<and>
        decoder_state_at L0 m0 Score H0 mask0 1 tsc0 s00 3 = Inr s3 \<and>
        0 < length (d_active s2) \<and> d_active s2 ! 0 = 0 \<longrightarrow> d_active s3 ! 0 = 0"
    by blast
  with s have "d_active s3 ! 0 = 0" by simp
  with a0 a1 a2 s show ?thesis by auto
qed

section \<open>Pooling, selection and attention\<close>

text \<open>
  Claim C4 (pooling identity). With one example, the pooled feature matrix of a decoder
  time step (one row per batch element) is the feature matrix of that example, in every
  decoder state, and the log-probabilities of the step are computed from it.
\<close>

theorem pooling_single_example:
  "pooled_features L m Hl ml (Suc 0) s =
     Inr (example_features L (n_encoders m) (Hl ! 0) (ml ! 0) (d_states s ! 0)) \<and>
   step_logsoftmax L m Hl ml (Suc 0) s =
     Inr (log_softmax32 (nn_Linear (V_weight m) (V_bias m)
            (example_features L (n_encoders m) (Hl ! 0) (ml ! 0) (d_states s ! 0))))"
  by (simp add: pooled_features_def decoder_FC_def step_logsoftmax_def)

lemma sum_list_map_nth: "sum_list (map f xs) = (\<Sum>k < length xs. f (xs ! k))"
proof -
  have "sum_list (map f xs) = (\<Sum>k = 0..<length (map f xs). map f xs ! k)"
    by (rule sum_list_sum_nth)
  also have "\<dots> = (\<Sum>k < length xs. f (xs ! k))"
    by (simp add: atLeast0LessThan)
  finally show ?thesis .
qed

lemma softmax_dim0_nth:
  "k < length s \<Longrightarrow> b < length (s ! k) \<Longrightarrow>
   softmax_dim0 s ! k ! b = exp_x (s ! k ! b) / (\<Sum>j < length s. exp_x (s ! j ! b))"
  by (simp add: softmax_dim0_def nth_enumerate_eq column_def sum_list_map_nth comp_def)

lemma exp_x_nonneg: "0 \<le> exp_x x"
  by (cases x) simp_all

lemma masked_scores_nth:
  assumes "rect B active" "length Hp = length active" "\<forall>Hk \<in> set Hp. length Hk = B"
    "length h = B" "k < length active"
  shows "length (map2 (map2 add_x) (map (\<lambda>Hk. map2 A Hk h) Hp) (map (map log_byte) active)) = length active"
    and "length (map2 (map2 add_x) (map (\<lambda>Hk. map2 A Hk h) Hp) (map (map log_byte) active) ! k) = B"
    and "b < B \<Longrightarrow> map2 (map2 add_x) (map (\<lambda>Hk. map2 A Hk h) Hp) (map (map log_byte) active) ! k ! b
           = add_x (A (Hp ! k ! b) (h ! b)) (log_byte (active ! k ! b))"
proof -
  have a: "length (active ! k) = B" using assms(1,5) by (simp add: rect_def)
  have hk: "length (Hp ! k) = B" using assms(2,3,5) by simp
  show "length (map2 (map2 add_x) (map (\<lambda>Hk. map2 A Hk h) Hp) (map (map log_byte) active)) = length active"
    using assms(2) by simp
  show "length (map2 (map2 add_x) (map (\<lambda>Hk. map2 A Hk h) Hp) (map (map log_byte) active) ! k) = B"
    using assms(2,4,5) a hk by simp
  show "map2 (map2 add_x) (map (\<lambda>Hk. map2 A Hk h) Hp) (map (map log_byte) active) ! k ! b
           = add_x (A (Hp ! k ! b) (h ! b)) (log_byte (active ! k ! b))" if "b < B"
    using assms(2,4,5) a hk that by simp
qed

text \<open>
  Claim C6 (attention normalisation). Let the attention mask be derived from the byte mask
  \<open>active\<close> (0 at an active position, \<open>-inf\<close> at an inactive one), with the shapes that
  \<^verbatim>\<open>_run\<close> gives \<^verbatim>\<open>attend\<close>, and let the batch element \<open>b\<close> have an active position. Then,
  in exact arithmetic, the attention weights of \<open>b\<close> sum to 1 over all positions and over
  the active positions alone, and the weight at every inactive position is 0, for every
  bilinear form, query and hidden-state sequence.
\<close>

theorem attention_weights_normalised:
  fixes active :: "nat list list"
  assumes "rect B active" and "length Hp = length active" and "\<forall>Hk \<in> set Hp. length Hk = B"
    and "length h = B" and "b < B"
    and "\<exists>k < length active. active ! k ! b \<noteq> 0"
  shows "(\<Sum>k < length active. attend_weights A Hp (map (map log_byte) active) h ! k ! b) = 1 \<and>
         (\<Sum>k \<in> {k. k < length active \<and> active ! k ! b \<noteq> 0}.
             attend_weights A Hp (map (map log_byte) active) h ! k ! b) = 1 \<and>
         (\<forall>k < length active. active ! k ! b = 0 \<longrightarrow>
             attend_weights A Hp (map (map log_byte) active) h ! k ! b = 0)"
proof -
  let ?s = "map2 (map2 add_x) (map (\<lambda>Hk. map2 A Hk h) Hp) (map (map log_byte) active)"
  let ?w = "attend_weights A Hp (map (map log_byte) active) h"
  let ?n = "length active"
  define e where "e k = exp_x (?s ! k ! b)" for k
  define Z where "Z = (\<Sum>j < ?n. e j)"
  note sh = masked_scores_nth [OF assms(1-4)]
  have len: "length ?s = ?n" using assms(2) by simp
  have w: "?w ! k ! b = e k / Z" if "k < ?n" for k
  proof -
    from that have "k < length ?s" using len by simp
    moreover have "b < length (?s ! k)" using sh(2) [OF that] assms(5) by simp
    ultimately have "softmax_dim0 ?s ! k ! b = exp_x (?s ! k ! b) / (\<Sum>j < length ?s. exp_x (?s ! j ! b))"
      by (rule softmax_dim0_nth)
    then show ?thesis unfolding attend_weights_def e_def Z_def len .
  qed
  have e_inactive: "e k = 0" if "k < ?n" "active ! k ! b = 0" for k
    using sh(3) [OF that(1) assms(5), of A] that(2) by (simp add: e_def log_byte_def)
  have e_active: "0 < e k" if "k < ?n" "active ! k ! b \<noteq> 0" for k
    using sh(3) [OF that(1) assms(5), of A] that(2) by (simp add: e_def log_byte_def)
  have e_nonneg: "0 \<le> e k" for k by (simp add: e_def exp_x_nonneg)
  from assms(6) obtain k0 where k0: "k0 < ?n" "active ! k0 ! b \<noteq> 0" by blast
  have "e k0 \<le> Z" unfolding Z_def
    by (rule member_le_sum) (use k0 e_nonneg in auto)
  with e_active [OF k0] have Zpos: "0 < Z" by simp
  have "(\<Sum>k < ?n. ?w ! k ! b) = (\<Sum>k < ?n. e k / Z)"
    by (rule sum.cong) (simp_all add: w)
  also have "\<dots> = (\<Sum>k < ?n. e k) / Z" by (rule sum_divide_distrib [symmetric])
  also have "\<dots> = Z / Z" by (simp only: Z_def)
  finally have total: "(\<Sum>k < ?n. ?w ! k ! b) = 1" using Zpos by simp
  have zero: "?w ! k ! b = 0" if "k < ?n" "active ! k ! b = 0" for k
    using w [OF that(1)] e_inactive [OF that] by simp
  have "(\<Sum>k \<in> {k. k < ?n \<and> active ! k ! b \<noteq> 0}. ?w ! k ! b) = (\<Sum>k \<in> {..<?n}. ?w ! k ! b)"
    by (rule sum.mono_neutral_left) (use zero in auto)
  with total have act: "(\<Sum>k \<in> {k. k < ?n \<and> active ! k ! b \<noteq> 0}. ?w ! k ! b) = 1" by simp
  from total act zero show ?thesis by blast
qed

theorem attention_weights_normalised_witness:
  "attend_weights (\<lambda>x y. 0) [[[0]], [[0]], [[0]]] (map (map log_byte) [[1], [1], [0]]) [[0]] ! 0 ! 0 +
   attend_weights (\<lambda>x y. 0) [[[0]], [[0]], [[0]]] (map (map log_byte) [[1], [1], [0]]) [[0]] ! 1 ! 0 +
   attend_weights (\<lambda>x y. 0) [[[0]], [[0]], [[0]]] (map (map log_byte) [[1], [1], [0]]) [[0]] ! 2 ! 0 = 1 \<and>
   attend_weights (\<lambda>x y. 0) [[[0]], [[0]], [[0]]] (map (map log_byte) [[1], [1], [0]]) [[0]] ! 2 ! 0 = 0"
proof -
  let ?active = "[[1], [1], [0]] :: nat list list"
  let ?Hp = "[[[0]], [[0]], [[0]]] :: ftensor3"
  let ?w = "attend_weights (\<lambda>x y. 0) ?Hp (map (map log_byte) ?active) [[0]]"
  have r: "rect 1 ?active" by (simp add: rect_def)
  have l: "length ?Hp = length ?active" by simp
  have hk: "\<forall>Hk \<in> set ?Hp. length Hk = 1" by simp
  have h: "length [[0::real]] = 1" by simp
  have b: "(0::nat) < 1" by simp
  have ex: "\<exists>k < length ?active. ?active ! k ! 0 \<noteq> 0" by (rule exI [of _ 0]) simp
  note t = attention_weights_normalised [OF r l hk h b ex, of "\<lambda>x y. 0"]
  from t have "(\<Sum>k < length ?active. ?w ! k ! 0) = 1" by blast
  then have 1: "?w ! 0 ! 0 + ?w ! 1 ! 0 + ?w ! 2 ! 0 = 1"
    by (simp add: lessThan_Suc numeral_2_eq_2)
  from t have "\<forall>k < length ?active. ?active ! k ! 0 = 0 \<longrightarrow> ?w ! k ! 0 = 0" by blast
  then have "2 < length ?active \<longrightarrow> ?active ! 2 ! 0 = 0 \<longrightarrow> ?w ! 2 ! 0 = 0" by blast
  then have 2: "?w ! 2 ! 0 = 0" by simp
  from 1 2 show ?thesis by blast
qed

end
